theory Spec2Isabelle
  imports Complex_Main "HOL-Library.Sublist"
begin

section \<open>Strings\<close>

text \<open>
  Python strings are modelled as \<open>string\<close>, lists of 8-bit characters: the model
  covers the texts whose characters are below U+0100. Among these characters
  \<open>str.isspace()\<close> holds of the twelve characters of \<open>whitespace\<close>, and these are
  what \<open>str.strip()\<close> removes.
\<close>

definition whitespace :: "char list" where
  "whitespace =
     [CHR 0x09, CHR 0x0A, CHR 0x0B, CHR 0x0C, CHR 0x0D,
      CHR 0x1C, CHR 0x1D, CHR 0x1E, CHR 0x1F, CHR 0x20, CHR 0x85, CHR 0xA0]"

definition isspace :: "char \<Rightarrow> bool" where
  "isspace c = (c \<in> set whitespace)"

text \<open>\<open>s.strip()\<close>: leading and trailing whitespace removed.\<close>

definition strip :: "string \<Rightarrow> string" where
  "strip s = rev (dropWhile isspace (rev (dropWhile isspace s)))"

text \<open>
  \<open>s.upper()\<close>, character by character: \<open>a..z\<close> and the small letters U+00E0..U+00FE
  (without the division sign U+00F7) go to their capitals, 32 places lower, and the
  sharp s U+00DF goes to \<open>SS\<close>. The capitals of the micro sign U+00B5 and of U+00FF
  are U+039C and U+0178, which are not characters of the model; these two letters are
  left as they are. Neither they nor their capitals occur in \<open>SELECT\<close>, so the test of
  the safety gate is not affected.
\<close>

definition ascii_lowercase :: string where
  "ascii_lowercase = ''abcdefghijklmnopqrstuvwxyz''"

definition ascii_uppercase :: string where
  "ascii_uppercase = ''ABCDEFGHIJKLMNOPQRSTUVWXYZ''"

definition latin1_lowercase :: string where
  "latin1_lowercase =
     [CHR 0xE0, CHR 0xE1, CHR 0xE2, CHR 0xE3, CHR 0xE4, CHR 0xE5, CHR 0xE6, CHR 0xE7,
      CHR 0xE8, CHR 0xE9, CHR 0xEA, CHR 0xEB, CHR 0xEC, CHR 0xED, CHR 0xEE, CHR 0xEF,
      CHR 0xF0, CHR 0xF1, CHR 0xF2, CHR 0xF3, CHR 0xF4, CHR 0xF5, CHR 0xF6, CHR 0xF8,
      CHR 0xF9, CHR 0xFA, CHR 0xFB, CHR 0xFC, CHR 0xFD, CHR 0xFE]"

definition latin1_uppercase :: string where
  "latin1_uppercase =
     [CHR 0xC0, CHR 0xC1, CHR 0xC2, CHR 0xC3, CHR 0xC4, CHR 0xC5, CHR 0xC6, CHR 0xC7,
      CHR 0xC8, CHR 0xC9, CHR 0xCA, CHR 0xCB, CHR 0xCC, CHR 0xCD, CHR 0xCE, CHR 0xCF,
      CHR 0xD0, CHR 0xD1, CHR 0xD2, CHR 0xD3, CHR 0xD4, CHR 0xD5, CHR 0xD6, CHR 0xD8,
      CHR 0xD9, CHR 0xDA, CHR 0xDB, CHR 0xDC, CHR 0xDD, CHR 0xDE]"

definition upper_char :: "char \<Rightarrow> string" where
  "upper_char c =
     (if c = CHR 0xDF then ''SS''
      else (case map_of (zip (ascii_lowercase @ latin1_lowercase)
                             (ascii_uppercase @ latin1_uppercase)) c of
              Some u \<Rightarrow> [u]
            | None \<Rightarrow> [c]))"

definition upper :: "string \<Rightarrow> string" where
  "upper s = concat (map upper_char s)"

text \<open>
  \<open>s.split(sep)\<close> for a separator of one character: the pieces between the
  occurrences of the separator, always at least one piece.
\<close>

fun str_split :: "char \<Rightarrow> string \<Rightarrow> string list" where
  "str_split sep [] = [[]]"
| "str_split sep (c # cs) =
     (if c = sep then [] # str_split sep cs
      else (case str_split sep cs of
              [] \<Rightarrow> [[c]]
            | p # ps \<Rightarrow> (c # p) # ps))"

text \<open>\<open>sep.join(parts)\<close>.\<close>

fun str_join :: "string \<Rightarrow> string list \<Rightarrow> string" where
  "str_join sep [] = []"
| "str_join sep [p] = p"
| "str_join sep (p # q # ps) = p @ sep @ str_join sep (q # ps)"

text \<open>
  \<open>s.replace(old, new)\<close>: the occurrences of \<open>old\<close> are found from the left and do
  not overlap. For an empty \<open>old\<close> Python puts \<open>new\<close> before every character and
  at the end.
\<close>

function (sequential) str_replace :: "string \<Rightarrow> string \<Rightarrow> string \<Rightarrow> string" where
  "str_replace [] new s = new @ concat (map (\<lambda>c. c # new) s)"
| "str_replace old new [] = []"
| "str_replace old new (c # cs) =
     (if prefix old (c # cs) then new @ str_replace old new (drop (length old) (c # cs))
      else c # str_replace old new cs)"
  by pat_completeness auto
termination
  by (relation "measure (\<lambda>(old, new, s). length s)") auto

section \<open>Response cleaner and safety gate\<close>

definition fence :: string where
  "fence = [CHR 0x60, CHR 0x60, CHR 0x60]"

definition newline :: char where
  "newline = CHR 0x0A"

text \<open>
  \<open>_clear_llm_response\<close>:
  \<^verbatim>\<open>response = response.replace(">>>", "")\<close>, then the lines that do not start with
  three backquotes, joined again.
\<close>

definition clear_llm_response :: "string \<Rightarrow> string" where
  "clear_llm_response response =
     (let response' = str_replace ''>>>'' [] response;
          lines = filter (\<lambda>line. \<not> prefix fence line) (str_split newline response')
      in str_join [newline] lines)"

text \<open>
  The source raises only \<open>ValueError\<close>, told apart by its message; \<open>IndexError\<close> is
  what an index out of range raises.
\<close>

datatype error = ValueError string | IndexError

definition non_select_message :: string where
  "non_select_message = ''A non-SELECT query was generated. Please try again.''"

text \<open>
  \<open>_is_safe_query\<close>: \<^verbatim>\<open>query = query.split(";")[0]\<close>, accepted when
  \<^verbatim>\<open>query.strip().upper().startswith("SELECT")\<close>, returning \<^verbatim>\<open>query.strip()\<close>.
\<close>

definition is_safe_query :: "string \<Rightarrow> error + string" where
  "is_safe_query query =
     (case str_split (CHR '';'') query of
        [] \<Rightarrow> Inl IndexError
      | q # _ \<Rightarrow>
          if prefix ''SELECT'' (upper (strip q)) then Inr (strip q)
          else Inl (ValueError non_select_message))"

text \<open>
  The value of the local variable \<open>lines\<close> of \<open>_clear_llm_response\<close>: the lines that
  are kept.
\<close>

definition kept_lines :: "string \<Rightarrow> string list" where
  "kept_lines x =
     filter (\<lambda>line. \<not> prefix fence line) (str_split newline (str_replace ''>>>'' [] x))"

section \<open>Python values\<close>

text \<open>
  Truthiness of an \<open>Optional[str]\<close>: \<open>None\<close> and the empty string are false.
  \<open>str_of\<close> is how an f-string renders such a value.
\<close>

definition truthy :: "string option \<Rightarrow> bool" where
  "truthy x = (case x of None \<Rightarrow> False | Some t \<Rightarrow> t \<noteq> [])"

definition str_of :: "string option \<Rightarrow> string" where
  "str_of x = (case x of None \<Rightarrow> ''None'' | Some t \<Rightarrow> t)"

text \<open>\<open>not xs\<close> for an optional list: \<open>None\<close> and the empty list.\<close>

definition falsy_list :: "'a list option \<Rightarrow> bool" where
  "falsy_list x = (case x of None \<Rightarrow> True | Some l \<Rightarrow> l = [])"

text \<open>\<open>str(n)\<close> for an integer: decimal digits, a minus sign when negative.\<close>

definition digit :: "nat \<Rightarrow> char" where
  "digit d = ''0123456789'' ! d"

function str_nat :: "nat \<Rightarrow> string" where
  "str_nat n = (if n < 10 then [digit n] else str_nat (n div 10) @ [digit (n mod 10)])"
  by pat_completeness auto
termination
  by (relation "measure (\<lambda>n. n)") auto

definition str_int :: "int \<Rightarrow> string" where
  "str_int i = (if i < 0 then CHR ''-'' # str_nat (nat (- i)) else str_nat (nat i))"

text \<open>
  A cell of a result row is dynamically typed. A row is a tuple of cells; a formatted
  record is a \<open>dict\<close>, kept as an association list in insertion order.
\<close>

datatype cell = NoneCell | IntCell int | FloatCell real | TextCell string

type_synonym row = "cell list"

type_synonym record_dict = "(string \<times> cell) list"

text \<open>\<open>d[k] = v\<close>: an existing key keeps its place, a new key goes last.\<close>

fun dict_set :: "('k \<times> 'v) list \<Rightarrow> 'k \<Rightarrow> 'v \<Rightarrow> ('k \<times> 'v) list" where
  "dict_set [] k v = [(k, v)]"
| "dict_set ((k', v') # d) k v =
     (if k' = k then (k, v) # d else (k', v') # dict_set d k v)"

text \<open>What \<open>_format_results\<close> returns: the string, or the list of records.\<close>

datatype results = Message string | Records "record_dict list"

text \<open>
  \<^verbatim>\<open>{column_names[i]: row[i] for i in range(len(column_names))}\<close>, the dictionary so
  far as an accumulator; a row shorter than the column names raises \<open>IndexError\<close>.
\<close>

fun row_data :: "string list \<Rightarrow> row \<Rightarrow> record_dict \<Rightarrow> error + record_dict" where
  "row_data [] r d = Inr d"
| "row_data (c # cs) [] d = Inl IndexError"
| "row_data (c # cs) (x # xs) d = row_data cs xs (dict_set d c x)"

fun format_rows :: "row list \<Rightarrow> string list \<Rightarrow> error + record_dict list" where
  "format_rows [] column_names = Inr []"
| "format_rows (r # rs) column_names =
     (case row_data column_names r [] of
        Inl e \<Rightarrow> Inl e
      | Inr d \<Rightarrow>
          (case format_rows rs column_names of
             Inl e \<Rightarrow> Inl e
           | Inr ds \<Rightarrow> Inr (d # ds)))"

definition no_results_message :: string where
  "no_results_message = ''No results found.''"

text \<open>\<open>_format_results\<close>.\<close>

definition format_results :: "row list option \<Rightarrow> string list option \<Rightarrow> error + results" where
  "format_results rows column_names =
     (if falsy_list rows \<or> falsy_list column_names then Inr (Message no_results_message)
      else (case (rows, column_names) of
              (Some rs, Some cs) \<Rightarrow>
                (case format_rows rs cs of
                   Inl e \<Rightarrow> Inl e
                 | Inr ds \<Rightarrow> Inr (Records ds))
            | _ \<Rightarrow> Inr (Message no_results_message)))"

section \<open>The collaborators and the session\<close>

text \<open>
  What \<open>_execute_sql_query\<close> returns: \<open>(rows, column_names, error)\<close>. What the database
  does with a statement: it returns rows and column names, or raises with a message.
\<close>

type_synonym exec_result = "row list option \<times> string list option \<times> string option"

datatype db_outcome = Fetched "row list" "string list" | Fault string

definition error_of :: "exec_result \<Rightarrow> string option" where
  "error_of r = snd (snd r)"

text \<open>
  The calls a run makes, in order: a backend exchange (system prompt, user prompt,
  reply), a call of \<open>_execute_sql_query\<close> (the statement and what it returned), and a
  call of \<open>fix_error_message\<close> (its \<open>error\<close> argument and how it ended).
\<close>

datatype event =
    Completion string string string
  | Execute string exec_result
  | Repair string "error + string"

fun is_completion :: "event \<Rightarrow> bool" where
  "is_completion (Completion sp up reply) = True"
| "is_completion ev = False"

fun is_execute :: "event \<Rightarrow> bool" where
  "is_execute (Execute q r) = True"
| "is_execute ev = False"

fun executions :: "event list \<Rightarrow> (string \<times> exec_result) list" where
  "executions [] = []"
| "executions (Execute q r # evs) = (q, r) # executions evs"
| "executions (ev # evs) = executions evs"

fun repairs :: "event list \<Rightarrow> (string \<times> (error + string)) list" where
  "repairs [] = []"
| "repairs (Repair e out # evs) = (e, out) # repairs evs"
| "repairs (ev # evs) = repairs evs"

fun completions :: "event list \<Rightarrow> (string \<times> string \<times> string) list" where
  "completions [] = []"
| "completions (Completion sp up reply # evs) = (sp, up, reply) # completions evs"
| "completions (ev # evs) = completions evs"

text \<open>
  The text-generation backend, the database and the clock are outside the program. A
  run is taken against an arbitrary environment: the reply to the \<open>n\<close>-th backend
  exchange, the outcome of the \<open>n\<close>-th execution, the \<open>strftime\<close> text read before
  the \<open>n\<close>-th exchange, the rounded elapsed time that \<open>chat\<close> reports, and Python's
  \<open>str\<close> of a formatted result.
\<close>

record env =
  llm :: "nat \<Rightarrow> string"
  db :: "nat \<Rightarrow> db_outcome"
  now :: "nat \<Rightarrow> string"
  execution_time :: real
  py_str :: "results \<Rightarrow> string"

text \<open>
  The fields of an \<open>EasyNQL\<close> object that the operations read or write (\<open>engine\<close>:
  whether a database engine is connected), and the calls made so far. Logging does not
  change any value and is left out.
\<close>

record session =
  schema_text :: string
  model :: string
  database_type :: string
  engine :: bool
  natural_language_question :: "string option"
  generated_query :: "string option"
  trace :: "event list"

definition dquote :: char where
  "dquote = CHR 0x22"

definition indent :: string where
  "indent = ''        ''"

text \<open>\<^verbatim>\<open>{f", specialized in {self.database_type}" if self.database_type else ""}\<close>\<close>

definition specialized :: "session \<Rightarrow> string" where
  "specialized s =
     (if database_type s \<noteq> [] then '', specialized in '' @ database_type s else [])"

text \<open>\<open>ollama.chat\<close> with the two messages; the reply's \<open>message.content\<close>.\<close>

definition ollama_chat :: "env \<Rightarrow> string \<Rightarrow> string \<Rightarrow> session \<Rightarrow> string \<times> session" where
  "ollama_chat E system_prompt user_prompt s =
     (let content = llm E (length (filter is_completion (trace s)))
      in (content, s\<lparr>trace := trace s @ [Completion system_prompt user_prompt content]\<rparr>))"

definition strftime_now :: "env \<Rightarrow> session \<Rightarrow> string" where
  "strftime_now E s = now E (length (filter is_completion (trace s)))"

section \<open>Query generation\<close>

definition generate_system_prompt :: "session \<Rightarrow> string" where
  "generate_system_prompt s =
     strip ([newline] @ indent @ ''You are an expert SQL assistant'' @ specialized s
       @ ''. Convert natural language questions into SQL queries based on the provided database schema. Only provide the SQL query without explanations.''
       @ [newline] @ indent
       @ ''If the natural language question asks you to update, delete, or insert data, please ignore it.''
       @ [newline] @ indent)"

definition generate_user_prompt :: "env \<Rightarrow> session \<Rightarrow> string \<Rightarrow> string" where
  "generate_user_prompt E s question =
     strip ([newline] @ indent @ ''Today is: '' @ [newline] @ indent @ strftime_now E s
       @ [newline, newline] @ indent @ ''Database Schema:'' @ [newline] @ indent @ schema_text s
       @ [newline, newline] @ indent @ ''Question:'' @ [newline] @ indent
       @ [dquote] @ question @ [dquote] @ [newline] @ indent)"

text \<open>
  \<open>generate_sql\<close>: the question is stored first; the reply's content is stored as
  \<open>generated_query\<close>; what is returned is the cleaned and gated text.
\<close>

definition generate_sql :: "env \<Rightarrow> string \<Rightarrow> session \<Rightarrow> (error + string) \<times> session" where
  "generate_sql E question s =
     (let s1 = s\<lparr>natural_language_question := Some question\<rparr>;
          (content, s2) =
             ollama_chat E (generate_system_prompt s1) (generate_user_prompt E s1 question) s1;
          s3 = s2\<lparr>generated_query := Some content\<rparr>;
          clear_response = clear_llm_response content
      in (is_safe_query clear_response, s3))"

section \<open>Query repair\<close>

definition missing_query_message :: string where
  "missing_query_message =
     ''The sql_query parameter must be provided or a SQL query must be generated first.''"

definition missing_question_message :: string where
  "missing_question_message =
     ''The question parameter must be provided or a natural language question must be generated first.''"

text \<open>
  An optional argument and the stored field behind it: the argument when it is given
  (truthy), else the stored value when that is truthy, else nothing (the caller raises).
\<close>

definition given_or_stored :: "string option \<Rightarrow> string option \<Rightarrow> string option" where
  "given_or_stored given stored =
     (if truthy given then given else if truthy stored then stored else None)"

definition repair_system_prompt :: "session \<Rightarrow> string" where
  "repair_system_prompt s =
     strip ([newline] @ indent @ ''You are an expert SQL assistant'' @ specialized s
       @ ''. Try to fix the error in the SQL query based on the provided database schema. Only provide the SQL query without explanations. Don''
       @ [CHR 0x27] @ ''t write anything more than the fixed query.''
       @ [newline] @ indent)"

definition repair_user_prompt :: "env \<Rightarrow> session \<Rightarrow> string \<Rightarrow> string \<Rightarrow> string \<Rightarrow> string" where
  "repair_user_prompt E s question err sql_query =
     strip ([newline] @ indent @ ''Today is: '' @ [newline] @ indent @ strftime_now E s
       @ [newline, newline] @ indent @ ''Database Schema:'' @ [newline] @ indent @ schema_text s
       @ [newline, newline] @ indent @ ''Question:'' @ [newline] @ indent
       @ [dquote] @ question @ [dquote]
       @ [newline, newline] @ indent @ ''Error:'' @ [newline] @ indent @ err
       @ [newline, newline] @ indent @ ''SQL Query:'' @ [newline] @ indent @ sql_query
       @ [newline] @ indent)"

text \<open>
  \<open>fix_error_message(error, question=None, sql_query=None)\<close>. Nothing is assigned to a
  field of the object. The last event records the call and how it ended.
\<close>

definition fix_error_message ::
  "env \<Rightarrow> string \<Rightarrow> string option \<Rightarrow> string option \<Rightarrow> session \<Rightarrow> (error + string) \<times> session" where
  "fix_error_message E err question sql_query s =
     (let (outcome, s') =
        (case given_or_stored sql_query (generated_query s) of
           None \<Rightarrow> (Inl (ValueError missing_query_message), s)
         | Some sql \<Rightarrow>
             (case given_or_stored question (natural_language_question s) of
                None \<Rightarrow> (Inl (ValueError missing_question_message), s)
              | Some q \<Rightarrow>
                  (let (content, s1) =
                         ollama_chat E (repair_system_prompt s) (repair_user_prompt E s q err sql) s;
                       clear_response = clear_llm_response content
                   in (is_safe_query clear_response, s1))))
      in (outcome, s'\<lparr>trace := trace s' @ [Repair err outcome]\<rparr>))"

section \<open>Execution and the human-readable answer\<close>

definition no_engine_message :: string where
  "no_engine_message = ''No database engine is connected.''"

text \<open>
  \<open>_execute_sql_query\<close>: without an engine an error text is returned; a fault of the
  database is caught and returned as its text.
\<close>

definition execute_sql_query :: "env \<Rightarrow> string \<Rightarrow> session \<Rightarrow> exec_result \<times> session" where
  "execute_sql_query E sql_query s =
     (let r =
        (if \<not> engine s then (None, None, Some no_engine_message)
         else (case db E (length (filter is_execute (trace s))) of
                 Fetched rows column_names \<Rightarrow> (Some rows, Some column_names, None)
               | Fault msg \<Rightarrow> (None, None, Some msg)))
      in (r, s\<lparr>trace := trace s @ [Execute sql_query r]\<rparr>))"

definition missing_question_message' :: string where
  "missing_question_message' =
     ''The natural_language_question parameter must be provided or a question must be generated first.''"

definition human_system_prompt :: "session \<Rightarrow> string" where
  "human_system_prompt s =
     strip ([newline] @ indent @ ''You are an expert SQL assistant'' @ specialized s
       @ ''. Generate a response to the question based on the provided database schema and query results. Be concise and provide a short answer in a human-like phrase.''
       @ [newline] @ indent)"

definition human_user_prompt :: "session \<Rightarrow> string \<Rightarrow> string \<Rightarrow> string" where
  "human_user_prompt s question query_results =
     strip ([newline] @ indent @ ''Database Schema:'' @ [newline] @ indent @ schema_text s
       @ [newline, newline] @ indent @ ''Question:'' @ [newline] @ indent
       @ [dquote] @ question @ [dquote]
       @ [newline, newline] @ indent @ ''The executed query is:'' @ [newline] @ indent
       @ str_of (generated_query s)
       @ [newline, newline] @ indent @ ''Query Results:'' @ [newline] @ indent @ query_results
       @ [newline] @ indent)"

text \<open>\<open>generate_human_response(query_results, question=None)\<close>: the reply as it is.\<close>

definition generate_human_response ::
  "env \<Rightarrow> string \<Rightarrow> string option \<Rightarrow> session \<Rightarrow> (error + string) \<times> session" where
  "generate_human_response E query_results question s =
     (case given_or_stored question (natural_language_question s) of
        None \<Rightarrow> (Inl (ValueError missing_question_message'), s)
      | Some q \<Rightarrow>
          (let (content, s1) =
                 ollama_chat E (human_system_prompt s) (human_user_prompt s q query_results) s
           in (Inr content, s1)))"

section \<open>The retry loop\<close>

text \<open>
  The \<open>while\<close> loop of \<open>chat\<close> over its variables \<open>sql_query\<close>, \<open>rows\<close>,
  \<open>column_names\<close>, \<open>error\<close> and \<open>count_tries\<close>. \<open>except ValueError\<close> catches a failed
  repair and leaves the loop; any other exception leaves \<open>chat\<close> (\<open>Inl\<close>).
\<close>

type_synonym loop_vars =
  "session \<times> string \<times> row list option \<times> string list option \<times> string option \<times> int"

function chat_loop ::
  "env \<Rightarrow> int \<Rightarrow> session \<Rightarrow> string \<Rightarrow> row list option \<Rightarrow> string list option \<Rightarrow>
   string option \<Rightarrow> int \<Rightarrow> (error \<times> session) + loop_vars" where
  "chat_loop E max_retries s sql_query rows column_names error count_tries =
     (if count_tries < max_retries then
        (case execute_sql_query E sql_query s of
           ((rows', column_names', error'), s1) \<Rightarrow>
             if truthy error' then
               (case fix_error_message E (str_of error') None None s1 of
                  (Inr fixed, s2) \<Rightarrow>
                    chat_loop E max_retries s2 fixed rows' column_names' error' (count_tries + 1)
                | (Inl (ValueError m), s2) \<Rightarrow>
                    Inr (s2, sql_query, rows', column_names', error', count_tries)
                | (Inl IndexError, s2) \<Rightarrow> Inl (IndexError, s2))
             else Inr (s1, sql_query, rows', column_names', error', count_tries))
      else Inr (s, sql_query, rows, column_names, error, count_tries))"
  by pat_completeness auto
termination
  by (relation "measure (\<lambda>(E, max_retries, s, q, r, c, e, count_tries). nat (max_retries - count_tries))") auto

section \<open>chat\<close>

definition generation_failed_message :: string where
  "generation_failed_message =
     ''Failed to generate a valid SQL query from the natural language question.''"

definition exhausted_message :: "int \<Rightarrow> string \<Rightarrow> string option \<Rightarrow> string" where
  "exhausted_message max_retries sql_query error =
     ''The SQL query could not be executed after '' @ str_int max_retries @ '' attempts.''
       @ [newline] @ ''Last generated query:'' @ [newline] @ sql_query
       @ [newline, newline] @ ''Error:'' @ [newline] @ str_of error"

text \<open>The values of the returned dictionary, which is kept in the order it is written.\<close>

datatype pyval = StrVal string | ResultsVal results | FloatVal real | IntVal int

type_synonym response = "(string \<times> pyval) list"

text \<open>\<open>chat(natural_language_question, max_retries=3, human_response=False)\<close>.\<close>

definition chat ::
  "env \<Rightarrow> string \<Rightarrow> int \<Rightarrow> bool \<Rightarrow> session \<Rightarrow> (error + response) \<times> session" where
  "chat E question max_retries human_response s =
     (case generate_sql E question s of
        (Inl (ValueError m), s1) \<Rightarrow> (Inl (ValueError generation_failed_message), s1)
      | (Inl IndexError, s1) \<Rightarrow> (Inl IndexError, s1)
      | (Inr sql0, s1) \<Rightarrow>
          (case chat_loop E max_retries s1 sql0 None None None 0 of
             Inl (e, s2) \<Rightarrow> (Inl e, s2)
           | Inr (s2, sql_query, rows, column_names, error, count_tries) \<Rightarrow>
               if count_tries = max_retries \<and> truthy error then
                 (Inl (ValueError (exhausted_message max_retries sql_query error)), s2)
               else
                 (case format_results rows column_names of
                    Inl e \<Rightarrow> (Inl e, s2)
                  | Inr query_results \<Rightarrow>
                      if human_response then
                        (case generate_human_response E (py_str E query_results) None s2 of
                           (Inl e, s3) \<Rightarrow> (Inl e, s3)
                         | (Inr answer, s3) \<Rightarrow>
                             (Inr [(''query'', StrVal sql_query),
                                   (''result'', ResultsVal query_results),
                                   (''answer'', StrVal answer),
                                   (''execution_time'', FloatVal (execution_time E)),
                                   (''retries'', IntVal count_tries)], s3))
                      else
                        (Inr [(''query'', StrVal sql_query),
                              (''results'', ResultsVal query_results),
                              (''execution_time'', FloatVal (execution_time E)),
                              (''retries'', IntVal count_tries)], s2))))"

section \<open>Runs\<close>

text \<open>The calls made between two states of the session.\<close>

definition run_events :: "session \<Rightarrow> session \<Rightarrow> event list" where
  "run_events s s' = drop (length (trace s)) (trace s')"

text \<open>
  The runs of the retry loop as sequences of calls: from the loop variables
  \<open>sql_query\<close>, \<open>rows\<close>, \<open>column_names\<close>, \<open>error\<close>, \<open>count_tries\<close> the loop makes
  the calls \<open>evs\<close> and ends with the variables on the right. \<open>chat_loop_run\<close> below
  shows that every run of \<open>chat_loop\<close> is one of these.
\<close>

inductive loop_run ::
  "int \<Rightarrow> string \<Rightarrow> row list option \<Rightarrow> string list option \<Rightarrow> string option \<Rightarrow> int \<Rightarrow>
   event list \<Rightarrow>
   string \<Rightarrow> row list option \<Rightarrow> string list option \<Rightarrow> string option \<Rightarrow> int \<Rightarrow> bool" where
  stop: "\<not> n < mx \<Longrightarrow> loop_run mx q r c e n [] q r c e n"
| success:
    "n < mx \<Longrightarrow> \<not> truthy e1 \<Longrightarrow>
     loop_run mx q r c e n [Execute q (r1, c1, e1)] q r1 c1 e1 n"
| give_up:
    "n < mx \<Longrightarrow> truthy e1 \<Longrightarrow> executions cs = [] \<Longrightarrow> repairs cs = [] \<Longrightarrow>
     loop_run mx q r c e n
       (Execute q (None, None, e1) # cs @ [Repair (str_of e1) (Inl (ValueError m))])
       q None None e1 n"
| retry:
    "n < mx \<Longrightarrow> truthy e1 \<Longrightarrow> executions cs = [] \<Longrightarrow> repairs cs = [] \<Longrightarrow>
     is_safe_query raw = Inr q2 \<Longrightarrow>
     loop_run mx q2 None None e1 (n + 1) evs q' r' c' e' n' \<Longrightarrow>
     loop_run mx q r c e n
       (Execute q (None, None, e1) # cs @ Repair (str_of e1) (Inr q2) # evs)
       q' r' c' e' n'"

section \<open>Example environments\<close>

text \<open>
  Concrete collaborators for the example runs: the backend answers with the listed
  replies in order, the database with the listed outcomes in order, the clock stands
  still.
\<close>

definition scripted_env :: "string list \<Rightarrow> db_outcome list \<Rightarrow> env" where
  "scripted_env replies outcomes =
     \<lparr>llm = (\<lambda>i. if i < length replies then replies ! i else []),
      db = (\<lambda>i. if i < length outcomes then outcomes ! i else Fault ''database is locked''),
      now = (\<lambda>i. ''2025-01-01 00:00:00''),
      execution_time = 0,
      py_str = (\<lambda>r. ''rows'')\<rparr>"

definition example_session :: session where
  "example_session =
     \<lparr>schema_text = ''Table: t'', model = ''llama3'', database_type = ''sqlite'',
      engine = True, natural_language_question = None, generated_query = None,
      trace = []\<rparr>"

text \<open>
  Every execution faults; the backend answers the generation and the repairs with
  \<open>SELECT\<close> statements.
\<close>

definition failing_env :: env where
  "failing_env =
     scripted_env [''SELECT a;'', ''SELECT b'', ''SELECT c'']
       [Fault ''no such column: a'', Fault ''no such column: b'']"

text \<open>The first execution faults, the second returns one row.\<close>

definition retry_env :: env where
  "retry_env =
     scripted_env [''SELECT a;'', ''SELECT b'', ''It is 1.'']
       [Fault ''no such column: a'', Fetched [[IntCell 1]] [''b'']]"

text \<open>The execution faults and the backend answers the repair with a \<open>DROP\<close>.\<close>

definition unsafe_env :: env where
  "unsafe_env =
     scripted_env [''SELECT a;'', ''DROP TABLE t''] [Fault ''no such column: a'']"

text \<open>The table \<open>orders(id, total)\<close> and the question about order 5.\<close>

definition orders_env :: env where
  "orders_env =
     scripted_env [''SELECT total FROM orders WHERE id=5;'', ''The total of order 5 is 42.'']
       [Fetched [[FloatCell 42]] [''total'']]"

definition orders_session :: session where
  "orders_session = example_session\<lparr>schema_text := ''Table: orders(id, total)''\<rparr>"

declare chat_loop.simps [simp del]

section \<open>Splitting and joining\<close>

lemma str_split_not_Nil: "str_split sep s \<noteq> []"
  by (induction s) (auto split: list.splits)

lemma hd_str_split: "hd (str_split sep s) = takeWhile (\<lambda>c. c \<noteq> sep) s"
  by (induction s) (auto simp: str_split_not_Nil split: list.splits)

lemma str_join_split: "str_join [sep] (str_split sep s) = s"
proof (induction s)
  case Nil
  show ?case by simp
next
  case (Cons c cs)
  obtain p ps where sp: "str_split sep cs = p # ps"
    using str_split_not_Nil [of sep cs] by (cases "str_split sep cs") auto
  show ?case
  proof (cases "c = sep")
    case True
    with Cons sp show ?thesis by simp
  next
    case False
    with Cons sp show ?thesis by (cases ps) auto
  qed
qed

lemma str_split_no_sep: "l \<in> set (str_split sep s) \<Longrightarrow> sep \<notin> set l"
  by (induction s arbitrary: l) (auto split: if_splits list.splits)

lemma str_split_append_sep:
  "sep \<notin> set l \<Longrightarrow> str_split sep (l @ sep # r) = l # str_split sep r"
  by (induction l) auto

lemma str_split_no_sep_id: "sep \<notin> set l \<Longrightarrow> str_split sep l = [l]"
  by (induction l) auto

lemma str_split_join:
  "ls \<noteq> [] \<Longrightarrow> (\<And>l. l \<in> set ls \<Longrightarrow> sep \<notin> set l) \<Longrightarrow> str_split sep (str_join [sep] ls) = ls"
proof (induction ls)
  case Nil
  then show ?case by simp
next
  case (Cons p ps)
  show ?case
  proof (cases ps)
    case Nil
    with Cons.prems show ?thesis by (simp add: str_split_no_sep_id)
  next
    case (Cons q qs)
    with Cons.IH Cons.prems show ?thesis by (simp add: str_split_append_sep)
  qed
qed

section \<open>Removing the marker\<close>

lemma marker_hit:
  "str_replace ''>>>'' [] (CHR ''>'' # CHR ''>'' # CHR ''>'' # t) = str_replace ''>>>'' [] t"
  by simp

lemma marker_skip:
  "\<not> prefix ''>>>'' (c # cs) \<Longrightarrow>
   str_replace ''>>>'' [] (c # cs) = c # str_replace ''>>>'' [] cs"
  by (simp only: str_replace.simps if_False)

lemma marker_no_prefix: "\<not> prefix ''>>>'' (str_replace ''>>>'' [] s)"
proof (induction s rule: length_induct)
  case (1 s)
  show ?case
  proof (cases s)
    case Nil
    then show ?thesis by simp
  next
    case s1: (Cons a t1)
    show ?thesis
    proof (cases t1)
      case Nil
      with s1 show ?thesis by simp
    next
      case s2: (Cons b t2)
      show ?thesis
      proof (cases t2)
        case Nil
        with s1 s2 show ?thesis by simp
      next
        case s3: (Cons c t3)
        have "\<not> prefix ''>>>'' (str_replace ''>>>'' [] t3)"
          using 1 s1 s2 s3 by simp
        with s1 s2 s3 show ?thesis by (cases t3) auto
      qed
    qed
  qed
qed

lemma marker_idem:
  "str_replace ''>>>'' [] (str_replace ''>>>'' [] s) = str_replace ''>>>'' [] s"
proof (induction s rule: length_induct)
  case (1 s)
  show ?case
  proof (cases s)
    case Nil
    then show ?thesis by simp
  next
    case (Cons c cs)
    show ?thesis
    proof (cases "prefix ''>>>'' s")
      case True
      then obtain t where "s = CHR ''>'' # CHR ''>'' # CHR ''>'' # t"
        by (auto simp: prefix_def)
      with 1 show ?thesis by (simp del: str_replace.simps add: marker_hit)
    next
      case False
      with Cons have eq: "str_replace ''>>>'' [] s = c # str_replace ''>>>'' [] cs"
        by (simp del: str_replace.simps add: marker_skip)
      have "\<not> prefix ''>>>'' (c # str_replace ''>>>'' [] cs)"
        using marker_no_prefix [of s] eq by simp
      then have "str_replace ''>>>'' [] (c # str_replace ''>>>'' [] cs) =
                 c # str_replace ''>>>'' [] (str_replace ''>>>'' [] cs)"
        by (rule marker_skip)
      with 1 Cons eq show ?thesis by simp
    qed
  qed
qed

lemma marker_set: "set (str_replace ''>>>'' [] s) \<subseteq> set s"
proof (induction s rule: length_induct)
  case (1 s)
  show ?case
  proof (cases "prefix ''>>>'' s")
    case True
    then obtain t where s: "s = CHR ''>'' # CHR ''>'' # CHR ''>'' # t"
      by (auto simp: prefix_def)
    with 1 have "set (str_replace ''>>>'' [] t) \<subseteq> set t" by simp
    with s show ?thesis by (auto simp del: str_replace.simps simp add: marker_hit)
  next
    case False
    show ?thesis
    proof (cases s)
      case Nil
      then show ?thesis by simp
    next
      case (Cons c cs)
      with 1 have "set (str_replace ''>>>'' [] cs) \<subseteq> set cs" by simp
      with False Cons show ?thesis by (auto simp del: str_replace.simps simp add: marker_skip)
    qed
  qed
qed

lemma marker_newline:
  "str_replace ''>>>'' [] (a @ newline # b) =
   str_replace ''>>>'' [] a @ newline # str_replace ''>>>'' [] b"
proof (induction a rule: length_induct)
  case (1 a)
  show ?case
  proof (cases "prefix ''>>>'' a")
    case True
    then obtain t where a: "a = CHR ''>'' # CHR ''>'' # CHR ''>'' # t"
      by (auto simp: prefix_def)
    with 1 show ?thesis by (simp del: str_replace.simps add: marker_hit)
  next
    case False
    show ?thesis
    proof (cases a)
      case Nil
      then show ?thesis by (simp add: newline_def)
    next
      case (Cons c cs)
      have np: "\<not> prefix ''>>>'' (c # cs @ newline # b)"
      proof (cases cs)
        case Nil
        then show ?thesis by (simp add: newline_def)
      next
        case c2: (Cons d ds)
        show ?thesis
        proof (cases ds)
          case Nil
          with c2 show ?thesis by (simp add: newline_def)
        next
          case c3: (Cons e es)
          with c2 False Cons show ?thesis by simp
        qed
      qed
      have IH: "str_replace ''>>>'' [] (cs @ newline # b) =
                str_replace ''>>>'' [] cs @ newline # str_replace ''>>>'' [] b"
        using 1 Cons by simp
      from False Cons have "str_replace ''>>>'' [] a = c # str_replace ''>>>'' [] cs"
        by (simp del: str_replace.simps add: marker_skip)
      moreover have "str_replace ''>>>'' [] (c # cs @ newline # b) =
                     c # str_replace ''>>>'' [] (cs @ newline # b)"
        using np by (rule marker_skip)
      ultimately show ?thesis using IH Cons by simp
    qed
  qed
qed

lemma marker_join:
  "str_replace ''>>>'' [] (str_join [newline] ls) =
   str_join [newline] (map (str_replace ''>>>'' []) ls)"
proof (induction ls)
  case Nil
  show ?case by simp
next
  case (Cons p ps)
  then show ?case by (cases ps) (simp_all del: str_replace.simps add: marker_newline)
qed

section \<open>The response cleaner\<close>

lemma marker_length: "length (str_replace ''>>>'' [] s) \<le> length s"
proof (induction s rule: length_induct)
  case (1 s)
  show ?case
  proof (cases "prefix ''>>>'' s")
    case True
    then obtain t where s: "s = CHR ''>'' # CHR ''>'' # CHR ''>'' # t"
      by (auto simp: prefix_def)
    with 1 have "length (str_replace ''>>>'' [] t) \<le> length t" by simp
    with s show ?thesis by (simp del: str_replace.simps add: marker_hit)
  next
    case False
    show ?thesis
    proof (cases s)
      case Nil
      then show ?thesis by simp
    next
      case (Cons c cs)
      with 1 have "length (str_replace ''>>>'' [] cs) \<le> length cs" by simp
      with False Cons show ?thesis by (simp del: str_replace.simps add: marker_skip)
    qed
  qed
qed

lemma marker_shorter:
  "sublist ''>>>'' s \<Longrightarrow> length (str_replace ''>>>'' [] s) < length s"
proof (induction s)
  case Nil
  then show ?case by simp
next
  case (Cons c cs)
  show ?case
  proof (cases "prefix ''>>>'' (c # cs)")
    case True
    then obtain t where s: "c # cs = CHR ''>'' # CHR ''>'' # CHR ''>'' # t"
      by (auto simp: prefix_def)
    have "length (str_replace ''>>>'' [] t) \<le> length t" by (rule marker_length)
    then have "length (str_replace ''>>>'' [] (CHR ''>'' # CHR ''>'' # CHR ''>'' # t))
                 < length (CHR ''>'' # CHR ''>'' # CHR ''>'' # t)"
      by (simp del: str_replace.simps add: marker_hit)
    with s show ?thesis by (simp del: str_replace.simps)
  next
    case False
    with Cons.prems have "sublist ''>>>'' cs"
      using sublist_Cons_right [of "''>>>''" c cs] by blast
    with Cons.IH have "length (str_replace ''>>>'' [] cs) < length cs" by simp
    with False show ?thesis by (simp del: str_replace.simps add: marker_skip)
  qed
qed

lemma marker_fixed_no_sublist:
  "str_replace ''>>>'' [] s = s \<Longrightarrow> \<not> sublist ''>>>'' s"
  using marker_shorter [of s] by auto

lemma lines_marker:
  "str_split newline (str_replace ''>>>'' [] x) =
   map (str_replace ''>>>'' []) (str_split newline x)"
proof -
  have "str_replace ''>>>'' [] x =
        str_replace ''>>>'' [] (str_join [newline] (str_split newline x))"
    by (simp add: str_join_split)
  also have "\<dots> = str_join [newline] (map (str_replace ''>>>'' []) (str_split newline x))"
    by (rule marker_join)
  finally have eq: "str_replace ''>>>'' [] x =
      str_join [newline] (map (str_replace ''>>>'' []) (str_split newline x))" .
  have "str_split newline (str_join [newline] (map (str_replace ''>>>'' []) (str_split newline x)))
        = map (str_replace ''>>>'' []) (str_split newline x)"
  proof (rule str_split_join)
    show "map (str_replace ''>>>'' []) (str_split newline x) \<noteq> []"
      by (simp add: str_split_not_Nil)
  next
    fix l
    assume "l \<in> set (map (str_replace ''>>>'' []) (str_split newline x))"
    then obtain k where k: "k \<in> set (str_split newline x)" and l: "l = str_replace ''>>>'' [] k"
      by auto
    from k have "newline \<notin> set k" by (rule str_split_no_sep)
    with l marker_set [of k] show "newline \<notin> set l" by auto
  qed
  with eq show ?thesis by simp
qed

lemma clear_llm_response_kept: "clear_llm_response x = str_join [newline] (kept_lines x)"
  by (simp add: clear_llm_response_def kept_lines_def Let_def)

lemma kept_lines_fixed: "k \<in> set (kept_lines x) \<Longrightarrow> str_replace ''>>>'' [] k = k"
  by (auto simp del: str_replace.simps simp add: kept_lines_def lines_marker marker_idem)

lemma kept_lines_no_newline: "k \<in> set (kept_lines x) \<Longrightarrow> newline \<notin> set k"
  by (auto simp del: str_replace.simps simp add: kept_lines_def dest: str_split_no_sep)

lemma kept_lines_no_fence: "k \<in> set (kept_lines x) \<Longrightarrow> \<not> prefix fence k"
  by (simp add: kept_lines_def)

lemma marker_clear_llm_response:
  "str_replace ''>>>'' [] (clear_llm_response x) = clear_llm_response x"
proof -
  have "map (str_replace ''>>>'' []) (kept_lines x) = kept_lines x"
    by (rule map_idI) (rule kept_lines_fixed)
  then show ?thesis
    by (simp del: str_replace.simps add: clear_llm_response_kept marker_join)
qed

lemma lines_clear_llm_response:
  "str_split newline (clear_llm_response x) =
     (if kept_lines x = [] then [[]] else kept_lines x)"
proof (cases "kept_lines x = []")
  case True
  then show ?thesis by (simp add: clear_llm_response_kept)
next
  case False
  then have "str_split newline (str_join [newline] (kept_lines x)) = kept_lines x"
    by (rule str_split_join) (rule kept_lines_no_newline)
  with False show ?thesis by (simp add: clear_llm_response_kept)
qed

lemma clear_idem: "clear_llm_response (clear_llm_response x) = clear_llm_response x"
proof -
  have "kept_lines (clear_llm_response x) =
        filter (\<lambda>line. \<not> prefix fence line) (str_split newline (clear_llm_response x))"
    by (simp del: str_replace.simps add: kept_lines_def marker_clear_llm_response)
  also have "\<dots> = (if kept_lines x = [] then [[]] else kept_lines x)"
  proof (cases "kept_lines x = []")
    case True
    then show ?thesis by (simp add: lines_clear_llm_response fence_def)
  next
    case False
    have "filter (\<lambda>line. \<not> prefix fence line) (kept_lines x) = kept_lines x"
      by (simp add: kept_lines_def)
    with False show ?thesis by (simp add: lines_clear_llm_response)
  qed
  finally have "kept_lines (clear_llm_response x) =
                  (if kept_lines x = [] then [[]] else kept_lines x)" .
  then show ?thesis
    by (simp add: clear_llm_response_kept [of "clear_llm_response x"])
       (simp add: clear_llm_response_kept)
qed

section \<open>The calls of a run\<close>

lemma executions_append [simp]: "executions (a @ b) = executions a @ executions b"
  by (induction a rule: executions.induct) auto

lemma repairs_append [simp]: "repairs (a @ b) = repairs a @ repairs b"
  by (induction a rule: repairs.induct) auto

lemma is_safe_query_not_IndexError: "is_safe_query x \<noteq> Inl IndexError"
  using str_split_not_Nil [of "CHR '';''" x]
  by (auto simp: is_safe_query_def split: list.splits)

lemma ollama_chat_state:
  "ollama_chat E sp up s = (content, s') \<Longrightarrow>
   s' = s\<lparr>trace := trace s @ [Completion sp up content]\<rparr>"
  by (auto simp: ollama_chat_def Let_def)

lemma execute_sql_query_state:
  assumes "execute_sql_query E q s = ((r1, c1, e1), s1)"
  shows "s1 = s\<lparr>trace := trace s @ [Execute q (r1, c1, e1)]\<rparr>"
    and "truthy e1 \<Longrightarrow> r1 = None \<and> c1 = None"
  using assms
  by (auto simp: execute_sql_query_def Let_def truthy_def split: if_splits db_outcome.splits)

lemma fix_error_message_state:
  assumes "fix_error_message E err qn sq s = (out, s')"
  shows "\<exists>cs. s' = s\<lparr>trace := trace s @ cs @ [Repair err out]\<rparr>
            \<and> executions cs = [] \<and> repairs cs = []
            \<and> out \<noteq> Inl IndexError
            \<and> (\<forall>q. out = Inr q \<longrightarrow> (\<exists>raw. is_safe_query raw = Inr q))"
proof (cases "given_or_stored sq (generated_query s)")
  case None
  with assms show ?thesis
    by (auto simp: fix_error_message_def intro!: exI [of _ "[]"])
next
  case sql: (Some sql)
  show ?thesis
  proof (cases "given_or_stored qn (natural_language_question s)")
    case None
    with assms sql show ?thesis
      by (auto simp: fix_error_message_def intro!: exI [of _ "[]"])
  next
    case (Some qq)
    obtain content s1 where oc:
      "ollama_chat E (repair_system_prompt s) (repair_user_prompt E s qq err sql) s = (content, s1)"
      by (cases "ollama_chat E (repair_system_prompt s) (repair_user_prompt E s qq err sql) s")
    from ollama_chat_state [OF oc]
    have s1: "s1 = s\<lparr>trace := trace s @
        [Completion (repair_system_prompt s) (repair_user_prompt E s qq err sql) content]\<rparr>" .
    from assms sql Some oc
    have out: "out = is_safe_query (clear_llm_response content)"
      and s': "s' = s1\<lparr>trace := trace s1 @ [Repair err out]\<rparr>"
      by (auto simp: fix_error_message_def Let_def)
    show ?thesis
      apply (rule exI [of _ "[Completion (repair_system_prompt s) (repair_user_prompt E s qq err sql) content]"])
      using out s' s1 is_safe_query_not_IndexError [of "clear_llm_response content"]
      by auto
  qed
qed

lemma chat_loop_run:
  "chat_loop E mx s q r c e n = res \<Longrightarrow>
   \<exists>evs q' r' c' e' n'.
      res = Inr (s\<lparr>trace := trace s @ evs\<rparr>, q', r', c', e', n')
      \<and> loop_run mx q r c e n evs q' r' c' e' n'"
proof (induction "nat (mx - n)" arbitrary: s q r c e n res)
  case 0
  then have "\<not> n < mx" by simp
  with 0 have "res = Inr (s, q, r, c, e, n)" by (simp add: chat_loop.simps)
  with \<open>\<not> n < mx\<close> show ?case
    by (auto intro!: exI [of _ "[]"] loop_run.stop)
next
  case (Suc k)
  then have lt: "n < mx" by simp
  obtain r1 c1 e1 s1 where ex: "execute_sql_query E q s = ((r1, c1, e1), s1)"
    by (metis prod.exhaust)
  note s1 = execute_sql_query_state(1) [OF ex]
  show ?case
  proof (cases "truthy e1")
    case False
    with Suc.prems lt ex have "res = Inr (s1, q, r1, c1, e1, n)"
      by (simp add: chat_loop.simps)
    with s1 lt False show ?thesis
      by (auto intro!: exI [of _ "[Execute q (r1, c1, e1)]"] loop_run.success)
  next
    case True
    with execute_sql_query_state(2) [OF ex] have nn: "r1 = None" "c1 = None" by auto
    obtain out s2 where fx: "fix_error_message E (str_of e1) None None s1 = (out, s2)"
      by (metis prod.exhaust)
    from fix_error_message_state [OF fx] obtain cs where
      s2: "s2 = s1\<lparr>trace := trace s1 @ cs @ [Repair (str_of e1) out]\<rparr>"
      and cs: "executions cs = []" "repairs cs = []"
      and ni: "out \<noteq> Inl IndexError"
      and gated: "\<forall>q. out = Inr q \<longrightarrow> (\<exists>raw. is_safe_query raw = Inr q)"
      by blast
    show ?thesis
    proof (cases out)
      case (Inl err)
      with ni obtain m where m: "out = Inl (ValueError m)" by (cases err) auto
      with Suc.prems lt ex True fx have "res = Inr (s2, q, r1, c1, e1, n)"
        by (simp add: chat_loop.simps)
      with s1 s2 lt True cs m nn show ?thesis
        by (auto intro!: exI [of _ "Execute q (None, None, e1) # cs @ [Repair (str_of e1) (Inl (ValueError m))]"]
              loop_run.give_up)
    next
      case (Inr q2)
      with gated obtain raw where raw: "is_safe_query raw = Inr q2" by blast
      from Suc.prems lt ex True fx Inr
      have rec: "chat_loop E mx s2 q2 r1 c1 e1 (n + 1) = res"
        by (simp add: chat_loop.simps)
      have "k = nat (mx - (n + 1))" using Suc.hyps(2) by simp
      from Suc.hyps(1) [OF this rec] obtain evs q' r' c' e' n' where
        res: "res = Inr (s2\<lparr>trace := trace s2 @ evs\<rparr>, q', r', c', e', n')"
        and run: "loop_run mx q2 r1 c1 e1 (n + 1) evs q' r' c' e' n'"
        by blast
      from run nn have run': "loop_run mx q2 None None e1 (n + 1) evs q' r' c' e' n'" by simp
      have "loop_run mx q r c e n
              (Execute q (None, None, e1) # cs @ Repair (str_of e1) (Inr q2) # evs) q' r' c' e' n'"
        by (rule loop_run.retry [OF lt True cs raw run'])
      moreover have "s2\<lparr>trace := trace s2 @ evs\<rparr> =
          s\<lparr>trace := trace s @ Execute q (None, None, e1) # cs @ Repair (str_of e1) (Inr q2) # evs\<rparr>"
        using s1 s2 Inr nn by simp
      ultimately show ?thesis using res by blast
    qed
  qed
qed

lemma loop_run_stop:
  "loop_run mx q r c e n evs q' r' c' e' n' \<Longrightarrow> \<not> n < mx \<Longrightarrow>
   evs = [] \<and> q' = q \<and> r' = r \<and> c' = c \<and> e' = e \<and> n' = n"
  by (erule loop_run.cases) auto

lemma loop_run_gated:
  "loop_run mx q r c e n evs q' r' c' e' n' \<Longrightarrow> \<exists>raw. is_safe_query raw = Inr q \<Longrightarrow>
   (\<forall>x \<in> set (executions evs). \<exists>raw. is_safe_query raw = Inr (fst x))
   \<and> (\<exists>raw. is_safe_query raw = Inr q')"
  by (induction rule: loop_run.induct) auto

lemma loop_run_all_fail:
  "loop_run mx q r c e n evs q' r' c' e' n' \<Longrightarrow> n < mx \<Longrightarrow>
   \<forall>x \<in> set (executions evs). truthy (error_of (snd x)) \<Longrightarrow>
   \<forall>x \<in> set (repairs evs). \<exists>fixed. snd x = Inr fixed \<Longrightarrow>
   n' = mx \<and> truthy e'
   \<and> int (length (executions evs)) = mx - n
   \<and> int (length (repairs evs)) = mx - n
   \<and> evs \<noteq> [] \<and> last evs = Repair (str_of e') (Inr q')
   \<and> error_of (snd (last (executions evs))) = e'"
proof (induction rule: loop_run.induct)
  case (stop n mx q r c e)
  then show ?case by simp
next
  case (success n mx e1 q r c r1 c1)
  then show ?case by (simp add: error_of_def)
next
  case (give_up n mx e1 cs q r c e m)
  then show ?case by simp
next
  case (retry n mx e1 cs raw q2 evs q' r' c' e' n' q r c e)
  show ?case
  proof (cases "n + 1 < mx")
    case True
    with retry.IH retry.prems
    have IH: "n' = mx \<and> truthy e'
       \<and> int (length (executions evs)) = mx - (n + 1)
       \<and> int (length (repairs evs)) = mx - (n + 1)
       \<and> evs \<noteq> [] \<and> last evs = Repair (str_of e') (Inr q')
       \<and> error_of (snd (last (executions evs))) = e'"
      by simp
    with True have "executions evs \<noteq> []" by auto
    with IH retry.hyps show ?thesis by simp
  next
    case False
    with loop_run_stop [OF retry.hyps(6)]
    have "evs = [] \<and> q' = q2 \<and> e' = e1 \<and> n' = n + 1" by simp
    with False retry.hyps show ?thesis by (simp add: error_of_def)
  qed
qed

lemma loop_run_first_success:
  "loop_run mx q r c e n evs q' r' c' e' n' \<Longrightarrow>
   executions evs = xs @ (sql, res) # ys \<Longrightarrow> \<not> truthy (error_of res) \<Longrightarrow>
   ys = [] \<and> length (repairs evs) = length xs \<and> n' = n + int (length xs)
   \<and> (\<forall>x \<in> set (repairs evs). \<exists>fixed. snd x = Inr fixed)
   \<and> (\<forall>x \<in> set xs. truthy (error_of (snd x)))
   \<and> last evs = Execute sql res \<and> q' = sql \<and> (r', c', e') = res \<and> n' < mx"
proof (induction arbitrary: xs rule: loop_run.induct)
  case (stop n mx q r c e)
  then show ?case by simp
next
  case (success n mx e1 q r c r1 c1)
  then show ?case by (auto simp: Cons_eq_append_conv)
next
  case (give_up n mx e1 cs q r c e m)
  then show ?case by (auto simp: Cons_eq_append_conv error_of_def)
next
  case (retry n mx e1 cs raw q2 evs q' r' c' e' n' q r c e)
  from retry.prems(1) retry.hyps
  have eq: "(q, (None, None, e1)) # executions evs = xs @ (sql, res) # ys" by simp
  show ?case
  proof (cases xs)
    case Nil
    with eq retry.prems(2) retry.hyps(2) show ?thesis by (auto simp: error_of_def)
  next
    case (Cons x xs')
    with eq have x: "x = (q, (None, None, e1))" and rest: "executions evs = xs' @ (sql, res) # ys"
      by auto
    from retry.IH [OF rest retry.prems(2)]
    have IH: "ys = [] \<and> length (repairs evs) = length xs' \<and> n' = n + 1 + int (length xs')
       \<and> (\<forall>x \<in> set (repairs evs). \<exists>fixed. snd x = Inr fixed)
       \<and> (\<forall>x \<in> set xs'. truthy (error_of (snd x)))
       \<and> last evs = Execute sql res \<and> q' = sql \<and> (r', c', e') = res \<and> n' < mx"
      by simp
    from rest have "evs \<noteq> []" by auto
    with IH Cons x retry.hyps show ?thesis by (simp add: error_of_def)
  qed
qed

lemma loop_run_repair_failed:
  "loop_run mx q r c e n evs q' r' c' e' n' \<Longrightarrow>
   (err, Inl x) \<in> set (repairs evs) \<Longrightarrow>
   n' < mx \<and> truthy e' \<and> r' = None \<and> c' = None
   \<and> evs \<noteq> [] \<and> last evs = Repair err (Inl x) \<and> err = str_of e'
   \<and> int (length (repairs evs)) = n' - n + 1
   \<and> length (executions evs) = length (repairs evs)
   \<and> last (executions evs) = (q', (None, None, e'))
   \<and> (\<forall>y \<in> set (butlast (repairs evs)). \<exists>fixed. snd y = Inr fixed)"
proof (induction rule: loop_run.induct)
  case (stop n mx q r c e)
  then show ?case by simp
next
  case (success n mx e1 q r c r1 c1)
  then show ?case by simp
next
  case (give_up n mx e1 cs q r c e m)
  then show ?case by auto
next
  case (retry n mx e1 cs raw q2 evs q' r' c' e' n' q r c e)
  from retry.prems retry.hyps have "(err, Inl x) \<in> set (repairs evs)" by simp
  from retry.IH [OF this]
  have IH: "n' < mx \<and> truthy e' \<and> r' = None \<and> c' = None
     \<and> evs \<noteq> [] \<and> last evs = Repair err (Inl x) \<and> err = str_of e'
     \<and> int (length (repairs evs)) = n' - (n + 1) + 1
     \<and> length (executions evs) = length (repairs evs)
     \<and> last (executions evs) = (q', (None, None, e'))
     \<and> (\<forall>y \<in> set (butlast (repairs evs)). \<exists>fixed. snd y = Inr fixed)" .
  from \<open>(err, Inl x) \<in> set (repairs evs)\<close> have ne: "repairs evs \<noteq> []" by auto
  with IH have "executions evs \<noteq> []" by auto
  with IH ne retry.hyps show ?case by auto
qed

lemma run_events_append [simp]:
  "run_events s (s1\<lparr>trace := trace s @ evs\<rparr>) = evs"
  by (simp add: run_events_def)

lemma generate_sql_state:
  assumes "generate_sql E qn s = (g, s1)"
  shows "\<exists>sp up content.
           s1 = s\<lparr>natural_language_question := Some qn, generated_query := Some content,
                  trace := trace s @ [Completion sp up content]\<rparr>
           \<and> g = is_safe_query (clear_llm_response content)"
proof -
  let ?c = "llm E (length (filter is_completion (trace s)))"
  let ?s = "s\<lparr>natural_language_question := Some qn\<rparr>"
  from assms have
    "s1 = s\<lparr>natural_language_question := Some qn, generated_query := Some ?c,
             trace := trace s @ [Completion (generate_system_prompt ?s) (generate_user_prompt E ?s qn) ?c]\<rparr>
     \<and> g = is_safe_query (clear_llm_response ?c)"
    by (auto simp: generate_sql_def ollama_chat_def Let_def)
  then show ?thesis by blast
qed

lemma given_or_stored_None: "given_or_stored None (Some qn) = (if qn = [] then None else Some qn)"
  by (simp add: given_or_stored_def truthy_def)

lemma generate_human_response_state:
  assumes "generate_human_response E text None s = (out, s')"
    and "natural_language_question s = Some qn"
  shows "(qn = [] \<longrightarrow> out = Inl (ValueError missing_question_message') \<and> s' = s)
       \<and> (qn \<noteq> [] \<longrightarrow> (\<exists>sp up content. out = Inr content
              \<and> s' = s\<lparr>trace := trace s @ [Completion sp up content]\<rparr>))"
proof (cases "qn = []")
  case True
  with assms show ?thesis
    by (auto simp: generate_human_response_def given_or_stored_None)
next
  case False
  let ?c = "llm E (length (filter is_completion (trace s)))"
  from False assms have
    "out = Inr ?c \<and> s' = s\<lparr>trace := trace s @
        [Completion (human_system_prompt s) (human_user_prompt s qn text) ?c]\<rparr>"
    by (auto simp: generate_human_response_def given_or_stored_None ollama_chat_def Let_def)
  with False show ?thesis by blast
qed

lemma chat_cases [consumes 1, case_names gen_failed exhausted format_failed plain human_failed human]:
  assumes run: "chat E qn mx h s = (res, s')"
  obtains
    (gen_failed) sp up content where
      "run_events s s' = [Completion sp up content]"
      "res = Inl (ValueError generation_failed_message)"
      "\<forall>q0. fst (generate_sql E qn s) \<noteq> Inr q0"
  | (exhausted) sp up content q0 evs q' r' c' e' where
      "is_safe_query (clear_llm_response content) = Inr q0"
      "loop_run mx q0 None None None 0 evs q' r' c' e' mx" "truthy e'"
      "run_events s s' = Completion sp up content # evs"
      "res = Inl (ValueError (exhausted_message mx q' e'))"
  | (format_failed) sp up content q0 evs q' r' c' e' n' err where
      "is_safe_query (clear_llm_response content) = Inr q0"
      "loop_run mx q0 None None None 0 evs q' r' c' e' n'" "n' = mx \<Longrightarrow> \<not> truthy e'"
      "run_events s s' = Completion sp up content # evs"
      "format_results r' c' = Inl err" "res = Inl err"
  | (plain) sp up content q0 evs q' r' c' e' n' fr where
      "is_safe_query (clear_llm_response content) = Inr q0"
      "loop_run mx q0 None None None 0 evs q' r' c' e' n'" "n' = mx \<Longrightarrow> \<not> truthy e'"
      "run_events s s' = Completion sp up content # evs"
      "format_results r' c' = Inr fr" "\<not> h"
      "res = Inr [(''query'', StrVal q'), (''results'', ResultsVal fr),
                  (''execution_time'', FloatVal (execution_time E)), (''retries'', IntVal n')]"
  | (human_failed) sp up content q0 evs q' r' c' e' n' fr where
      "is_safe_query (clear_llm_response content) = Inr q0"
      "loop_run mx q0 None None None 0 evs q' r' c' e' n'" "n' = mx \<Longrightarrow> \<not> truthy e'"
      "run_events s s' = Completion sp up content # evs"
      "format_results r' c' = Inr fr" "h" "qn = []"
      "res = Inl (ValueError missing_question_message')"
  | (human) sp up content q0 evs q' r' c' e' n' fr sp' up' answer where
      "is_safe_query (clear_llm_response content) = Inr q0"
      "loop_run mx q0 None None None 0 evs q' r' c' e' n'" "n' = mx \<Longrightarrow> \<not> truthy e'"
      "run_events s s' = Completion sp up content # evs @ [Completion sp' up' answer]"
      "format_results r' c' = Inr fr" "h" "qn \<noteq> []"
      "res = Inr [(''query'', StrVal q'), (''result'', ResultsVal fr), (''answer'', StrVal answer),
                  (''execution_time'', FloatVal (execution_time E)), (''retries'', IntVal n')]"
proof -
  obtain g s1 where gen: "generate_sql E qn s = (g, s1)" by (metis prod.exhaust)
  from generate_sql_state [OF gen] obtain sp up content where
    s1: "s1 = s\<lparr>natural_language_question := Some qn, generated_query := Some content,
                 trace := trace s @ [Completion sp up content]\<rparr>"
    and g: "g = is_safe_query (clear_llm_response content)"
    by blast
  show thesis
  proof (cases g)
    case (Inl err)
    with g is_safe_query_not_IndexError [of "clear_llm_response content"]
    obtain m where m: "g = Inl (ValueError m)" by (cases err) (auto simp: Inl)
    with run gen have "res = Inl (ValueError generation_failed_message)" "s' = s1"
      by (auto simp: chat_def)
    with s1 gen m show thesis
      by (intro gen_failed [of sp up content]) (auto simp: run_events_def)
  next
    case (Inr q0)
    from chat_loop_run [OF refl, of E mx s1 q0 None None None 0]
    obtain evs q' r' c' e' n' where
      lp: "chat_loop E mx s1 q0 None None None 0 = Inr (s1\<lparr>trace := trace s1 @ evs\<rparr>, q', r', c', e', n')"
      and lr: "loop_run mx q0 None None None 0 evs q' r' c' e' n'"
      by blast
    define s2 where "s2 = s1\<lparr>trace := trace s1 @ evs\<rparr>"
    have tr2: "trace s2 = trace s @ Completion sp up content # evs"
      and nlq: "natural_language_question s2 = Some qn"
      by (simp_all add: s2_def s1)
    have q0: "is_safe_query (clear_llm_response content) = Inr q0" using g Inr by simp
    show thesis
    proof (cases "n' = mx \<and> truthy e'")
      case True
      with run gen Inr lp have "res = Inl (ValueError (exhausted_message mx q' e'))" "s' = s2"
        by (auto simp: chat_def s2_def)
      with True lr q0 tr2 show thesis
        by (intro exhausted [of content q0 evs q' r' c' e' sp up])
           (auto simp: run_events_def)
    next
      case False
      show thesis
      proof (cases "format_results r' c'")
        case (Inl err)
        with run gen Inr lp False have "res = Inl err" "s' = s2"
          by (auto simp: chat_def s2_def)
        with False lr q0 tr2 Inl show thesis
          by (intro format_failed [of content q0 evs q' r' c' e' n' sp up err])
             (auto simp: run_events_def)
      next
        case fr: (Inr fr)
        show thesis
        proof (cases h)
          case False
          with run gen Inr lp \<open>\<not> (n' = mx \<and> truthy e')\<close> fr
          have "res = Inr [(''query'', StrVal q'), (''results'', ResultsVal fr),
                  (''execution_time'', FloatVal (execution_time E)), (''retries'', IntVal n')]"
            "s' = s2"
            by (auto simp: chat_def s2_def)
          with False \<open>\<not> (n' = mx \<and> truthy e')\<close> lr q0 tr2 fr show thesis
            by (intro plain [of content q0 evs q' r' c' e' n' sp up fr])
               (auto simp: run_events_def)
        next
          case True
          obtain out s3 where hr: "generate_human_response E (py_str E fr) None s2 = (out, s3)"
            by (metis prod.exhaust)
          note hs = generate_human_response_state [OF hr nlq]
          show thesis
          proof (cases "qn = []")
            case qe: True
            with hs have "out = Inl (ValueError missing_question_message')" "s3 = s2" by auto
            with run gen Inr lp \<open>\<not> (n' = mx \<and> truthy e')\<close> fr True hr
            have "res = Inl (ValueError missing_question_message')" "s' = s2"
              by (auto simp: chat_def s2_def)
            with True qe \<open>\<not> (n' = mx \<and> truthy e')\<close> lr q0 tr2 fr show thesis
              by (intro human_failed [of content q0 evs q' r' c' e' n' sp up fr])
                 (auto simp: run_events_def)
          next
            case qne: False
            with hs obtain sp' up' answer where
              out: "out = Inr answer" and s3: "s3 = s2\<lparr>trace := trace s2 @ [Completion sp' up' answer]\<rparr>"
              by auto
            with run gen Inr lp \<open>\<not> (n' = mx \<and> truthy e')\<close> fr True hr
            have "res = Inr [(''query'', StrVal q'), (''result'', ResultsVal fr),
                  (''answer'', StrVal answer),
                  (''execution_time'', FloatVal (execution_time E)), (''retries'', IntVal n')]"
              "s' = s3"
              by (auto simp: chat_def s2_def)
            moreover have "run_events s s3 = Completion sp up content # evs @ [Completion sp' up' answer]"
              by (simp add: s3 tr2 run_events_def)
            ultimately show thesis
              using True qne \<open>\<not> (n' = mx \<and> truthy e')\<close> lr q0 fr
              by (intro human [of content q0 evs q' r' c' e' n' sp up sp' up' answer fr]) auto
          qed
        qed
      qed
    qed
  qed
qed

section \<open>What the gate returns\<close>

lemma strip_split: "\<exists>w. dropWhile isspace s = strip s @ w"
proof -
  have "rev (dropWhile isspace s) =
        takeWhile isspace (rev (dropWhile isspace s)) @ dropWhile isspace (rev (dropWhile isspace s))"
    by simp
  then have "dropWhile isspace s =
        rev (dropWhile isspace (rev (dropWhile isspace s))) @
        rev (takeWhile isspace (rev (dropWhile isspace s)))"
    by (metis rev_append rev_rev_ident)
  then show ?thesis by (auto simp: strip_def)
qed

lemma strip_no_leading_space: "dropWhile isspace (strip s) = strip s"
proof (cases "strip s")
  case Nil
  then show ?thesis by simp
next
  case (Cons a t)
  from strip_split [of s] obtain w where w: "dropWhile isspace s = strip s @ w" by blast
  with Cons have "dropWhile isspace s = a # t @ w" by simp
  then have "\<not> isspace a"
    by (metis hd_dropWhile list.distinct(1) list.sel(1))
  with Cons show ?thesis by simp
qed

lemma strip_idem: "strip (strip s) = strip s"
proof -
  have "rev (strip s) = dropWhile isspace (rev (dropWhile isspace s))"
    by (simp add: strip_def)
  then have "dropWhile isspace (rev (strip s)) = rev (strip s)"
    by simp
  then have "rev (dropWhile isspace (rev (dropWhile isspace (strip s)))) = strip s"
    by (simp add: strip_no_leading_space)
  then show ?thesis by (simp add: strip_def [of "strip s"])
qed

lemma set_strip: "set (strip s) \<subseteq> set s"
proof -
  have "set (strip s) \<subseteq> set (dropWhile isspace s)"
    unfolding strip_def using set_dropWhileD by fastforce
  also have "\<dots> \<subseteq> set s" using set_dropWhileD by fastforce
  finally show ?thesis .
qed

lemma isspace_iff:
  "isspace c \<longleftrightarrow>
     c \<in> {CHR 0x09, CHR 0x0A, CHR 0x0B, CHR 0x0C, CHR 0x0D,
          CHR 0x1C, CHR 0x1D, CHR 0x1E, CHR 0x1F, CHR 0x20, CHR 0x85, CHR 0xA0}"
  by (simp add: isspace_def whitespace_def)

lemma strip_decompose:
  "\<exists>l r. s = l @ strip s @ r \<and> (\<forall>c \<in> set l. isspace c) \<and> (\<forall>c \<in> set r. isspace c)"
proof -
  let ?d = "dropWhile isspace s"
  have s: "s = takeWhile isspace s @ ?d" by simp
  have "?d = rev (dropWhile isspace (rev ?d)) @ rev (takeWhile isspace (rev ?d))"
    by (metis rev_append rev_rev_ident takeWhile_dropWhile_id)
  then have d: "?d = strip s @ rev (takeWhile isspace (rev ?d))"
    by (simp add: strip_def)
  have l: "\<forall>c \<in> set (takeWhile isspace s). isspace c"
    by (auto dest: set_takeWhileD)
  have r: "\<forall>c \<in> set (rev (takeWhile isspace (rev ?d))). isspace c"
    by (auto dest: set_takeWhileD)
  from s d have "s = takeWhile isspace s @ strip s @ rev (takeWhile isspace (rev ?d))"
    by simp
  with l r show ?thesis by blast
qed

lemma strip_ends:
  assumes "strip s \<noteq> []"
  shows "\<not> isspace (hd (strip s))" and "\<not> isspace (last (strip s))"
proof -
  from assms strip_no_leading_space [of s] hd_dropWhile [of isspace "strip s"]
  show "\<not> isspace (hd (strip s))" by simp
  have r: "rev (strip s) = dropWhile isspace (rev (dropWhile isspace s))"
    by (simp add: strip_def)
  with assms have "dropWhile isspace (rev (dropWhile isspace s)) \<noteq> []"
    by (metis rev_is_Nil_conv)
  from hd_dropWhile [OF this] r have "\<not> isspace (hd (rev (strip s)))" by simp
  with assms show "\<not> isspace (last (strip s))" by (simp add: hd_rev)
qed

lemma upper_Cons: "upper (c # cs) = upper_char c @ upper cs"
  by (simp add: upper_def)

lemma upper_Nil: "upper [] = []"
  by (simp add: upper_def)

lemma upper_char_cases:
  "upper_char c = ''SS'' \<and> c = CHR 0xDF \<or> (\<exists>u. upper_char c = [u]) \<and> c \<noteq> CHR 0xDF"
  by (auto simp: upper_char_def split: option.splits)

lemma upper_char_S: "upper_char c = ''S'' \<longleftrightarrow> c = CHR ''s'' \<or> c = CHR ''S''"
  by (auto simp: upper_char_def ascii_lowercase_def ascii_uppercase_def latin1_lowercase_def
      latin1_uppercase_def split: if_splits)

lemma upper_char_E: "upper_char c = ''E'' \<longleftrightarrow> c = CHR ''e'' \<or> c = CHR ''E''"
  by (auto simp: upper_char_def ascii_lowercase_def ascii_uppercase_def latin1_lowercase_def
      latin1_uppercase_def split: if_splits)

lemma upper_char_L: "upper_char c = ''L'' \<longleftrightarrow> c = CHR ''l'' \<or> c = CHR ''L''"
  by (auto simp: upper_char_def ascii_lowercase_def ascii_uppercase_def latin1_lowercase_def
      latin1_uppercase_def split: if_splits)

lemma upper_char_C: "upper_char c = ''C'' \<longleftrightarrow> c = CHR ''c'' \<or> c = CHR ''C''"
  by (auto simp: upper_char_def ascii_lowercase_def ascii_uppercase_def latin1_lowercase_def
      latin1_uppercase_def split: if_splits)

lemma upper_char_T: "upper_char c = ''T'' \<longleftrightarrow> c = CHR ''t'' \<or> c = CHR ''T''"
  by (auto simp: upper_char_def ascii_lowercase_def ascii_uppercase_def latin1_lowercase_def
      latin1_uppercase_def split: if_splits)

lemma upper_prefix_Cons:
  assumes "u \<noteq> CHR ''S''"
  shows "prefix (u # us) (upper t) \<longleftrightarrow>
         (\<exists>c cs. t = c # cs \<and> upper_char c = [u] \<and> prefix us (upper cs))"
proof (cases t)
  case Nil
  then show ?thesis by (simp add: upper_Nil)
next
  case (Cons c cs)
  with assms upper_char_cases [of c] show ?thesis
    by (auto simp: upper_Cons)
qed

lemma upper_prefix_S:
  assumes "v \<noteq> CHR ''S''"
  shows "prefix (CHR ''S'' # v # us) (upper t) \<longleftrightarrow>
         (\<exists>c cs. t = c # cs \<and> upper_char c = ''S'' \<and> prefix (v # us) (upper cs))"
proof (cases t)
  case Nil
  then show ?thesis by (simp add: upper_Nil)
next
  case (Cons c cs)
  with assms upper_char_cases [of c] show ?thesis
    by (auto simp: upper_Cons)
qed

lemma upper_prefix_SELECT:
  "prefix ''SELECT'' (upper t) \<longleftrightarrow>
     (\<exists>c0 c1 c2 c3 c4 c5 rest. t = c0 # c1 # c2 # c3 # c4 # c5 # rest
        \<and> (c0 = CHR ''s'' \<or> c0 = CHR ''S'') \<and> (c1 = CHR ''e'' \<or> c1 = CHR ''E'')
        \<and> (c2 = CHR ''l'' \<or> c2 = CHR ''L'') \<and> (c3 = CHR ''e'' \<or> c3 = CHR ''E'')
        \<and> (c4 = CHR ''c'' \<or> c4 = CHR ''C'') \<and> (c5 = CHR ''t'' \<or> c5 = CHR ''T''))"
proof -
  have "prefix ''SELECT'' (upper t) \<longleftrightarrow>
     (\<exists>c0 t0. t = c0 # t0 \<and> upper_char c0 = ''S'' \<and> prefix ''ELECT'' (upper t0))"
    by (rule upper_prefix_S) simp
  also have "\<dots> \<longleftrightarrow>
     (\<exists>c0 c1 t1. t = c0 # c1 # t1 \<and> upper_char c0 = ''S'' \<and> upper_char c1 = ''E''
        \<and> prefix ''LECT'' (upper t1))"
    by (auto simp: upper_prefix_Cons [of "CHR ''E''"])
  also have "\<dots> \<longleftrightarrow>
     (\<exists>c0 c1 c2 t2. t = c0 # c1 # c2 # t2 \<and> upper_char c0 = ''S'' \<and> upper_char c1 = ''E''
        \<and> upper_char c2 = ''L'' \<and> prefix ''ECT'' (upper t2))"
    by (auto simp: upper_prefix_Cons [of "CHR ''L''"])
  also have "\<dots> \<longleftrightarrow>
     (\<exists>c0 c1 c2 c3 t3. t = c0 # c1 # c2 # c3 # t3 \<and> upper_char c0 = ''S''
        \<and> upper_char c1 = ''E'' \<and> upper_char c2 = ''L'' \<and> upper_char c3 = ''E''
        \<and> prefix ''CT'' (upper t3))"
    by (auto simp: upper_prefix_Cons [of "CHR ''E''"])
  also have "\<dots> \<longleftrightarrow>
     (\<exists>c0 c1 c2 c3 c4 t4. t = c0 # c1 # c2 # c3 # c4 # t4 \<and> upper_char c0 = ''S''
        \<and> upper_char c1 = ''E'' \<and> upper_char c2 = ''L'' \<and> upper_char c3 = ''E''
        \<and> upper_char c4 = ''C'' \<and> prefix ''T'' (upper t4))"
    by (auto simp: upper_prefix_Cons [of "CHR ''C''"])
  also have "\<dots> \<longleftrightarrow>
     (\<exists>c0 c1 c2 c3 c4 c5 rest. t = c0 # c1 # c2 # c3 # c4 # c5 # rest \<and> upper_char c0 = ''S''
        \<and> upper_char c1 = ''E'' \<and> upper_char c2 = ''L'' \<and> upper_char c3 = ''E''
        \<and> upper_char c4 = ''C'' \<and> upper_char c5 = ''T'')"
    by (auto simp: upper_prefix_Cons [of "CHR ''T''"])
  finally show ?thesis
    by (simp only: upper_char_S upper_char_E upper_char_L upper_char_C upper_char_T)
qed

lemma takeWhile_before_first:
  "sep \<notin> set a \<Longrightarrow> takeWhile (\<lambda>c. c \<noteq> sep) (a @ sep # b) = a"
  by (induction a) auto

lemma takeWhile_no_sep: "sep \<notin> set s \<Longrightarrow> takeWhile (\<lambda>c. c \<noteq> sep) s = s"
  by (induction s) auto

lemma is_safe_query_Inr:
  assumes "is_safe_query raw = Inr t"
  shows "t = strip (takeWhile (\<lambda>c. c \<noteq> CHR '';'') raw)" and "prefix ''SELECT'' (upper t)"
    and "strip t = t" and "CHR '';'' \<notin> set t"
proof -
  obtain p ps where sp: "str_split (CHR '';'') raw = p # ps"
    using str_split_not_Nil [of "CHR '';''" raw] by (cases "str_split (CHR '';'') raw") auto
  with hd_str_split [of "CHR '';''" raw] have p: "p = takeWhile (\<lambda>c. c \<noteq> CHR '';'') raw"
    by simp
  from assms sp show t: "t = strip (takeWhile (\<lambda>c. c \<noteq> CHR '';'') raw)"
    and "prefix ''SELECT'' (upper t)"
    by (auto simp: is_safe_query_def p split: if_splits)
  from t show "strip t = t" by (simp add: strip_idem)
  have "CHR '';'' \<notin> set (takeWhile (\<lambda>c. c \<noteq> CHR '';'') raw)"
    by (auto dest: set_takeWhileD)
  with t set_strip [of "takeWhile (\<lambda>c. c \<noteq> CHR '';'') raw"] show "CHR '';'' \<notin> set t"
    by auto
qed


section \<open>The shape of a run\<close>

lemma ends_with_execute:
  assumes "evs \<noteq> []" "last evs = Execute sql r"
  shows "evs = butlast evs @ [Execute sql r]"
    and "repairs (butlast evs) = repairs evs"
    and "executions evs = executions (butlast evs) @ [(sql, r)]"
proof -
  show e: "evs = butlast evs @ [Execute sql r]"
    using assms by (metis append_butlast_last_id)
  have "repairs evs = repairs (butlast evs @ [Execute sql r])" using e by simp
  then show "repairs (butlast evs) = repairs evs" by simp
  have "executions evs = executions (butlast evs @ [Execute sql r])" using e by simp
  then show "executions evs = executions (butlast evs) @ [(sql, r)]" by simp
qed

lemma ends_with_repair:
  assumes "evs \<noteq> []" "last evs = Repair err out"
  shows "evs = butlast evs @ [Repair err out]"
    and "repairs evs = repairs (butlast evs) @ [(err, out)]"
proof -
  show e: "evs = butlast evs @ [Repair err out]"
    using assms by (metis append_butlast_last_id)
  have "repairs evs = repairs (butlast evs @ [Repair err out])" using e by simp
  then show "repairs evs = repairs (butlast evs) @ [(err, out)]" by simp
qed

lemma loop_run_kth_success:
  assumes lr: "loop_run mx q0 None None None 0 evs q' r' c' e' n'"
    and k: "1 \<le> k" "k \<le> length (executions evs)"
    and ok: "\<not> truthy (error_of (snd (executions evs ! (k - 1))))"
  shows "length (executions evs) = k" and "length (repairs evs) = k - 1"
    and "n' = int k - 1" and "n' < mx" and "\<not> truthy e'"
    and "\<forall>i < k - 1. truthy (error_of (snd (executions evs ! i)))"
    and "\<forall>x \<in> set (repairs evs). \<exists>fixed. snd x = Inr fixed"
    and "evs = butlast evs @ [Execute q' (r', c', e')]"
    and "length (executions (butlast evs)) = k - 1"
    and "length (repairs (butlast evs)) = k - 1"
    and "snd (executions evs ! (k - 1)) = (r', c', e')"
proof -
  let ?X = "executions evs"
  obtain sql r where kth: "?X ! (k - 1) = (sql, r)" by (cases "?X ! (k - 1)")
  from k have lt: "k - 1 < length ?X" by simp
  have dec: "?X = take (k - 1) ?X @ (sql, r) # drop k ?X"
    using id_take_nth_drop [OF lt] kth k by simp
  from ok kth have okr: "\<not> truthy (error_of r)" by simp
  have len: "length (take (k - 1) ?X) = k - 1" using lt by simp
  note fs = loop_run_first_success [OF lr dec okr]
  from fs have d: "drop k ?X = []" by simp
  with k show lenX: "length ?X = k" by simp
  from fs len show lenR: "length (repairs evs) = k - 1" by simp
  from fs len k show "n' = int k - 1" by (simp add: of_nat_diff)
  from fs show "n' < mx" by simp
  from fs have res: "(r', c', e') = r" and q': "q' = sql" and la: "last evs = Execute sql r"
    by simp_all
  from res okr show "\<not> truthy e'" by (auto simp: error_of_def)
  from fs have early: "\<forall>x \<in> set (take (k - 1) ?X). truthy (error_of (snd x))" by simp
  show "\<forall>i < k - 1. truthy (error_of (snd (?X ! i)))"
  proof (intro allI impI)
    fix i assume i: "i < k - 1"
    with lt have "take (k - 1) ?X ! i = ?X ! i" by simp
    moreover from i len have "take (k - 1) ?X ! i \<in> set (take (k - 1) ?X)"
      using nth_mem [of i "take (k - 1) ?X"] by simp
    ultimately show "truthy (error_of (snd (?X ! i)))" using early by auto
  qed
  from fs show "\<forall>x \<in> set (repairs evs). \<exists>fixed. snd x = Inr fixed" by simp
  from lenX k have ne: "evs \<noteq> []" by auto
  note ee = ends_with_execute [OF ne la]
  from ee(1) q' res show "evs = butlast evs @ [Execute q' (r', c', e')]" by simp
  from ee(3) lenX have "length (executions (butlast evs)) + 1 = k" by simp
  then show "length (executions (butlast evs)) = k - 1" by simp
  from ee(2) lenR show "length (repairs (butlast evs)) = k - 1" by simp
  from kth res show "snd (?X ! (k - 1)) = (r', c', e')" by simp
qed

lemma exhausted_message_not_missing_question:
  "exhausted_message mx q e \<noteq> missing_question_message'"
  by (simp add: exhausted_message_def missing_question_message'_def)

lemma format_results_None: "format_results None None = Inr (Message no_results_message)"
  by (simp add: format_results_def falsy_list_def)

lemma pair_chat: "chat E q mx h s = (fst (chat E q mx h s), snd (chat E q mx h s))"
  by simp


section \<open>The claims about the cleaner and the gate\<close>

lemmas string_eval =
  strip_def isspace_def whitespace_def upper_def upper_char_def ascii_lowercase_def
  ascii_uppercase_def latin1_lowercase_def latin1_uppercase_def fence_def newline_def

text \<open>
  Claim C9. The response cleaner is idempotent; in its result no line begins with the
  code-fence marker and the marker \<open>>>>\<close> does not occur; the lines of the result are
  the kept lines of the input in their order (one empty line when none is kept). It
  is a total function. The fenced example comes out as \<open>SELECT 1\<close>.
\<close>

theorem clear_llm_response_idempotent:
  "clear_llm_response (clear_llm_response x) = clear_llm_response x
   \<and> (\<forall>l \<in> set (str_split newline (clear_llm_response x)). \<not> prefix fence l)
   \<and> \<not> sublist ''>>>'' (clear_llm_response x)
   \<and> str_split newline (clear_llm_response x) =
       (if kept_lines x = [] then [[]] else kept_lines x)"
proof (intro conjI)
  show "clear_llm_response (clear_llm_response x) = clear_llm_response x"
    by (rule clear_idem)
  show "\<forall>l \<in> set (str_split newline (clear_llm_response x)). \<not> prefix fence l"
    by (auto simp: lines_clear_llm_response fence_def dest: kept_lines_no_fence)
  show "\<not> sublist ''>>>'' (clear_llm_response x)"
    by (rule marker_fixed_no_sublist) (rule marker_clear_llm_response)
  show "str_split newline (clear_llm_response x) =
          (if kept_lines x = [] then [[]] else kept_lines x)"
    by (rule lines_clear_llm_response)
qed

theorem clear_llm_response_idempotent_witness:
  "clear_llm_response (fence @ ''sql\<newline>SELECT 1\<newline>'' @ fence) = ''SELECT 1''
   \<and> clear_llm_response ''SELECT 1'' = ''SELECT 1''
   \<and> str_split newline ''SELECT 1'' = [''SELECT 1'']"
proof -
  have a: "clear_llm_response (fence @ ''sql\<newline>SELECT 1\<newline>'' @ fence) = ''SELECT 1''"
    by (simp add: clear_llm_response_def fence_def newline_def)
  have "kept_lines (fence @ ''sql\<newline>SELECT 1\<newline>'' @ fence) = [''SELECT 1'']"
    by (simp add: kept_lines_def fence_def newline_def)
  with a clear_llm_response_idempotent [of "fence @ ''sql\<newline>SELECT 1\<newline>'' @ fence"]
  show ?thesis by simp
qed

text \<open>
  Claim C2. The safety gate succeeds exactly when the text before the first \<open>;\<close> (all
  of the text when it has no \<open>;\<close>), stripped and upper-cased, starts with \<open>SELECT\<close>;
  it then returns that stripped text, and otherwise (also when the stripped text is
  empty) it fails with the non-SELECT \<open>ValueError\<close>. The stripped text is what is left
  of the text before the first \<open>;\<close> when the whitespace at both ends is taken away: it
  has whitespace only before and after it, and it neither begins nor ends with one of
  the twelve whitespace characters. Its upper-cased form starts with \<open>SELECT\<close> exactly
  when it starts with these six letters, each in either case.
\<close>

theorem is_safe_query_gate:
  "((\<exists>q. is_safe_query S = Inr q) \<longleftrightarrow>
      prefix ''SELECT'' (upper (strip (takeWhile (\<lambda>c. c \<noteq> CHR '';'') S))))
   \<and> (prefix ''SELECT'' (upper (strip (takeWhile (\<lambda>c. c \<noteq> CHR '';'') S))) \<longrightarrow>
        is_safe_query S = Inr (strip (takeWhile (\<lambda>c. c \<noteq> CHR '';'') S)))
   \<and> (\<not> prefix ''SELECT'' (upper (strip (takeWhile (\<lambda>c. c \<noteq> CHR '';'') S))) \<longrightarrow>
        is_safe_query S = Inl (ValueError non_select_message))
   \<and> (strip (takeWhile (\<lambda>c. c \<noteq> CHR '';'') S) = [] \<longrightarrow>
        is_safe_query S = Inl (ValueError non_select_message))
   \<and> (CHR '';'' \<notin> set S \<longrightarrow> takeWhile (\<lambda>c. c \<noteq> CHR '';'') S = S)
   \<and> (\<forall>a b. S = a @ CHR '';'' # b \<and> CHR '';'' \<notin> set a \<longrightarrow>
          takeWhile (\<lambda>c. c \<noteq> CHR '';'') S = a)
   \<and> (\<exists>l r. takeWhile (\<lambda>c. c \<noteq> CHR '';'') S
               = l @ strip (takeWhile (\<lambda>c. c \<noteq> CHR '';'') S) @ r
          \<and> (\<forall>c \<in> set l. isspace c) \<and> (\<forall>c \<in> set r. isspace c))
   \<and> (strip (takeWhile (\<lambda>c. c \<noteq> CHR '';'') S) \<noteq> [] \<longrightarrow>
        \<not> isspace (hd (strip (takeWhile (\<lambda>c. c \<noteq> CHR '';'') S)))
        \<and> \<not> isspace (last (strip (takeWhile (\<lambda>c. c \<noteq> CHR '';'') S))))
   \<and> (\<forall>c. isspace c \<longleftrightarrow>
          c \<in> {CHR 0x09, CHR 0x0A, CHR 0x0B, CHR 0x0C, CHR 0x0D,
               CHR 0x1C, CHR 0x1D, CHR 0x1E, CHR 0x1F, CHR 0x20, CHR 0x85, CHR 0xA0})
   \<and> (prefix ''SELECT'' (upper (strip (takeWhile (\<lambda>c. c \<noteq> CHR '';'') S))) \<longleftrightarrow>
        (\<exists>c0 c1 c2 c3 c4 c5 rest.
           strip (takeWhile (\<lambda>c. c \<noteq> CHR '';'') S) = c0 # c1 # c2 # c3 # c4 # c5 # rest
           \<and> (c0 = CHR ''s'' \<or> c0 = CHR ''S'') \<and> (c1 = CHR ''e'' \<or> c1 = CHR ''E'')
           \<and> (c2 = CHR ''l'' \<or> c2 = CHR ''L'') \<and> (c3 = CHR ''e'' \<or> c3 = CHR ''E'')
           \<and> (c4 = CHR ''c'' \<or> c4 = CHR ''C'') \<and> (c5 = CHR ''t'' \<or> c5 = CHR ''T'')))"
    (is "?A \<and> ?B \<and> ?C \<and> ?D \<and> ?E \<and> ?F \<and> ?G \<and> ?H \<and> ?I \<and> ?J")
proof -
  let ?t = "strip (takeWhile (\<lambda>c. c \<noteq> CHR '';'') S)"
  obtain p ps where sp: "str_split (CHR '';'') S = p # ps"
    using str_split_not_Nil [of "CHR '';''" S] by (cases "str_split (CHR '';'') S") auto
  with hd_str_split [of "CHR '';''" S] have p: "p = takeWhile (\<lambda>c. c \<noteq> CHR '';'') S"
    by simp
  have is_safe: "is_safe_query S =
      (if prefix ''SELECT'' (upper ?t) then Inr ?t else Inl (ValueError non_select_message))"
    by (simp add: is_safe_query_def sp p)
  have a: ?A by (simp add: is_safe)
  have b: ?B by (simp add: is_safe)
  have c: ?C by (simp add: is_safe)
  have d: ?D by (simp add: is_safe upper_Nil)
  have e: ?E by (simp add: takeWhile_no_sep)
  have f: ?F by (auto simp: takeWhile_before_first)
  have g: ?G by (rule strip_decompose)
  have h: ?H using strip_ends by blast
  have i: ?I by (simp add: isspace_iff)
  have j: ?J by (rule upper_prefix_SELECT)
  from a b c d e f g h i j show ?thesis by blast
qed

theorem is_safe_query_gate_witness:
  "is_safe_query ''select * from t;drop table t'' = Inr ''select * from t''
   \<and> is_safe_query ''DELETE FROM t'' = Inl (ValueError non_select_message)
   \<and> is_safe_query ''  '' = Inl (ValueError non_select_message)
   \<and> is_safe_query ([CHR 0xA0] @ ''SELECT 1'') = Inr ''SELECT 1''
   \<and> is_safe_query (''SELECT 1'' @ [CHR 0xA0, CHR 0x85]) = Inr ''SELECT 1''
   \<and> is_safe_query ([CHR 0x20, CHR 0x09, CHR 0x0A] @ ''SeLeCt 1 '' @ [CHR 0x0D, CHR 0x0A] @ ''; x'')
       = Inr ''SeLeCt 1''
   \<and> is_safe_query ([CHR 0xDF] @ ''ELECT 1'') = Inl (ValueError non_select_message)"
proof -
  let ?before = "takeWhile (\<lambda>c. c \<noteq> CHR '';'')"
  let ?ok = "\<lambda>S. prefix ''SELECT'' (upper (strip (?before S)))"
  have t1: "strip (?before ''select * from t;drop table t'') = ''select * from t''"
    by (simp add: string_eval)
  have t4: "strip (?before ([CHR 0xA0] @ ''SELECT 1'')) = ''SELECT 1''"
    by (simp add: string_eval)
  have t5: "strip (?before (''SELECT 1'' @ [CHR 0xA0, CHR 0x85])) = ''SELECT 1''"
    by (simp add: string_eval)
  have t6: "strip (?before ([CHR 0x20, CHR 0x09, CHR 0x0A] @ ''SeLeCt 1 '' @ [CHR 0x0D, CHR 0x0A] @ ''; x''))
      = ''SeLeCt 1''"
    by (simp add: string_eval)
  have ok: "prefix ''SELECT'' (upper ''select * from t'')" "prefix ''SELECT'' (upper ''SELECT 1'')"
    "prefix ''SELECT'' (upper ''SeLeCt 1'')"
    by (simp_all add: string_eval)
  have no: "\<not> ?ok ''DELETE FROM t''" "\<not> ?ok ''  ''" "\<not> ?ok ([CHR 0xDF] @ ''ELECT 1'')"
    by (simp_all add: string_eval)
  have "is_safe_query ''select * from t;drop table t'' = Inr ''select * from t''"
    using is_safe_query_gate [of "''select * from t;drop table t''"] ok t1 by simp
  moreover have "is_safe_query ''DELETE FROM t'' = Inl (ValueError non_select_message)"
    using is_safe_query_gate [of "''DELETE FROM t''"] no(1) by blast
  moreover have "is_safe_query ''  '' = Inl (ValueError non_select_message)"
    using is_safe_query_gate [of "''  ''"] no(2) by blast
  moreover have "is_safe_query ([CHR 0xA0] @ ''SELECT 1'') = Inr ''SELECT 1''"
    using is_safe_query_gate [of "[CHR 0xA0] @ ''SELECT 1''"] ok t4 by simp
  moreover have "is_safe_query (''SELECT 1'' @ [CHR 0xA0, CHR 0x85]) = Inr ''SELECT 1''"
    using is_safe_query_gate [of "''SELECT 1'' @ [CHR 0xA0, CHR 0x85]"] ok t5 by simp
  moreover have "is_safe_query
       ([CHR 0x20, CHR 0x09, CHR 0x0A] @ ''SeLeCt 1 '' @ [CHR 0x0D, CHR 0x0A] @ ''; x'')
       = Inr ''SeLeCt 1''"
    using is_safe_query_gate
      [of "[CHR 0x20, CHR 0x09, CHR 0x0A] @ ''SeLeCt 1 '' @ [CHR 0x0D, CHR 0x0A] @ ''; x''"]
      ok t6 by simp
  moreover have "is_safe_query ([CHR 0xDF] @ ''ELECT 1'') = Inl (ValueError non_select_message)"
    using is_safe_query_gate [of "[CHR 0xDF] @ ''ELECT 1''"] no(3) by blast
  ultimately show ?thesis by blast
qed


section \<open>Example runs\<close>

text \<open>The example runs, evaluated from the definitions.\<close>

lemmas run_eval =
  chat_def generate_sql_def ollama_chat_def fix_error_message_def execute_sql_query_def
  generate_human_response_def given_or_stored_def truthy_def str_of_def error_of_def
  format_results_def falsy_list_def is_safe_query_def clear_llm_response_def
  exhausted_message_def str_int_def digit_def run_events_def Let_def chat_loop.simps
  scripted_env_def example_session_def failing_env_def retry_env_def unsafe_env_def
  orders_env_def orders_session_def no_results_message_def

lemma failing_generate_sql:
  "fst (generate_sql failing_env ''q'' example_session) = Inr ''SELECT a''"
  "generated_query (snd (generate_sql failing_env ''q'' example_session)) = Some ''SELECT a;''"
  "natural_language_question (snd (generate_sql failing_env ''q'' example_session)) = Some ''q''"
  by (simp_all add: run_eval string_eval)

lemma failing_run_0:
  "fst (chat failing_env ''q'' 0 False example_session) =
     Inr [(''query'', StrVal ''SELECT a''),
          (''results'', ResultsVal (Message ''No results found.'')),
          (''execution_time'', FloatVal 0),
          (''retries'', IntVal 0)]"
  by (simp add: run_eval string_eval)

lemma failing_run_0_calls:
  "executions (run_events example_session (snd (chat failing_env ''q'' 0 False example_session))) = []"
  by (simp add: run_eval string_eval)

lemma failing_run_1:
  "fst (chat failing_env ''q'' 1 False example_session) =
     Inl (ValueError (''The SQL query could not be executed after 1 attempts.'' @ [newline]
        @ ''Last generated query:'' @ [newline] @ ''SELECT b'' @ [newline, newline]
        @ ''Error:'' @ [newline] @ ''no such column: a''))"
  by (simp add: run_eval string_eval)

lemma failing_run_1_calls:
  "executions (run_events example_session (snd (chat failing_env ''q'' 1 False example_session)))
     = [(''SELECT a'', None, None, Some ''no such column: a'')]"
  "repairs (run_events example_session (snd (chat failing_env ''q'' 1 False example_session)))
     = [(''no such column: a'', Inr ''SELECT b'')]"
  by (simp_all add: run_eval string_eval)

lemma failing_run_2:
  "fst (chat failing_env ''q'' 2 False example_session) =
     Inl (ValueError (exhausted_message 2 ''SELECT c'' (Some ''no such column: b'')))"
  by (simp add: run_eval string_eval)

lemma failing_run_2_calls:
  "executions (run_events example_session (snd (chat failing_env ''q'' 2 False example_session)))
     = [(''SELECT a'', None, None, Some ''no such column: a''),
        (''SELECT b'', None, None, Some ''no such column: b'')]"
  "repairs (run_events example_session (snd (chat failing_env ''q'' 2 False example_session)))
     = [(''no such column: a'', Inr ''SELECT b''), (''no such column: b'', Inr ''SELECT c'')]"
  by (simp_all add: run_eval string_eval)

lemma retry_run_3:
  "fst (chat retry_env ''q'' 3 False example_session) =
     Inr [(''query'', StrVal ''SELECT b''),
          (''results'', ResultsVal (Records [[(''b'', IntCell 1)]])),
          (''execution_time'', FloatVal 0),
          (''retries'', IntVal 1)]"
  by (simp add: run_eval string_eval)

lemma retry_run_3_calls:
  "executions (run_events example_session (snd (chat retry_env ''q'' 3 False example_session)))
     = [(''SELECT a'', None, None, Some ''no such column: a''),
        (''SELECT b'', Some [[IntCell 1]], Some [''b''], None)]"
  "repairs (run_events example_session (snd (chat retry_env ''q'' 3 False example_session)))
     = [(''no such column: a'', Inr ''SELECT b'')]"
  by (simp_all add: run_eval string_eval)

lemma unsafe_run_3:
  "fst (chat unsafe_env ''q'' 3 False example_session) =
     Inr [(''query'', StrVal ''SELECT a''),
          (''results'', ResultsVal (Message ''No results found.'')),
          (''execution_time'', FloatVal 0),
          (''retries'', IntVal 0)]"
  by (simp add: run_eval string_eval)

lemma unsafe_run_3_calls:
  "executions (run_events example_session (snd (chat unsafe_env ''q'' 3 False example_session)))
     = [(''SELECT a'', None, None, Some ''no such column: a'')]"
  "repairs (run_events example_session (snd (chat unsafe_env ''q'' 3 False example_session)))
     = [(''no such column: a'', Inl (ValueError non_select_message))]"
  by (simp_all add: run_eval string_eval)

lemma empty_question_run:
  "fst (chat failing_env [] 3 True example_session) = Inl (ValueError missing_question_message')"
  "executions (run_events example_session (snd (chat failing_env [] 3 True example_session)))
     = [(''SELECT a'', None, None, Some ''no such column: a'')]"
  "repairs (run_events example_session (snd (chat failing_env [] 3 True example_session)))
     = [(''no such column: a'', Inl (ValueError missing_question_message))]"
  by (simp_all add: run_eval string_eval)


section \<open>The claims about chat\<close>

text \<open>
  Claim C4. Every statement that \<open>chat\<close> hands to \<open>_execute_sql_query\<close> is a result
  of the safety gate: stripped and upper-cased it starts with \<open>SELECT\<close>, and it
  contains no \<open>;\<close>.
\<close>

theorem chat_executes_gated_only:
  assumes "chat E question max_retries human_response s = (res, s')"
    and "(sql, outcome) \<in> set (executions (run_events s s'))"
  shows "(\<exists>raw. is_safe_query raw = Inr sql)
       \<and> prefix ''SELECT'' (upper (strip sql)) \<and> CHR '';'' \<notin> set sql"
proof -
  have "\<exists>raw. is_safe_query raw = Inr sql"
    using assms
  proof (cases rule: chat_cases)
    case (gen_failed sp up content)
    with assms(2) show ?thesis by simp
  next
    case (exhausted sp up content q0 evs q' r' c' e')
    with loop_run_gated [OF exhausted(2)] assms(2) show ?thesis by fastforce
  next
    case (format_failed sp up content q0 evs q' r' c' e' n' err)
    with loop_run_gated [OF format_failed(2)] assms(2) show ?thesis by fastforce
  next
    case (plain sp up content q0 evs q' r' c' e' n' fr)
    with loop_run_gated [OF plain(2)] assms(2) show ?thesis by fastforce
  next
    case (human_failed sp up content q0 evs q' r' c' e' n' fr)
    with loop_run_gated [OF human_failed(2)] assms(2) show ?thesis by fastforce
  next
    case (human sp up content q0 evs q' r' c' e' n' fr sp' up' answer)
    with loop_run_gated [OF human(2)] assms(2) show ?thesis by fastforce
  qed
  then obtain raw where raw: "is_safe_query raw = Inr sql" by blast
  from is_safe_query_Inr [OF raw] raw show ?thesis by auto
qed

theorem chat_executes_gated_only_witness:
  "(''SELECT b'', None, None, Some ''no such column: b'')
     \<in> set (executions
          (run_events example_session (snd (chat failing_env ''q'' 2 False example_session))))
   \<and> (\<exists>raw. is_safe_query raw = Inr ''SELECT b'')
   \<and> prefix ''SELECT'' (upper (strip ''SELECT b''))
   \<and> CHR '';'' \<notin> set ''SELECT b''"
proof -
  have mem: "(''SELECT b'', None, None, Some ''no such column: b'')
     \<in> set (executions
          (run_events example_session (snd (chat failing_env ''q'' 2 False example_session))))"
    by (simp add: failing_run_2_calls)
  from chat_executes_gated_only [OF pair_chat mem] mem show ?thesis by blast
qed

text \<open>
  Claim C1, amended. In a run of \<open>chat\<close> with \<open>max_retries\<close> at least 1 in which the
  generation returns a query, every execution returns an error text and every repair
  returns a query, there are exactly \<open>max_retries\<close> executions and \<open>max_retries\<close>
  repairs, the run ends with a repair, and \<open>chat\<close> raises the \<open>ValueError\<close> whose
  message holds \<open>max_retries\<close>, the query returned by that last repair (which was not
  executed) and the error text of the last execution.
\<close>

theorem chat_exhausted:
  assumes run: "chat E question max_retries human_response s = (res, s')"
    and gen: "fst (generate_sql E question s) = Inr q0"
    and budget: "1 \<le> max_retries"
    and fail: "\<forall>x \<in> set (executions (run_events s s')). truthy (error_of (snd x))"
    and fixed: "\<forall>x \<in> set (repairs (run_events s s')). \<exists>fixed. snd x = Inr fixed"
  shows "int (length (executions (run_events s s'))) = max_retries
       \<and> int (length (repairs (run_events s s'))) = max_retries
       \<and> (\<exists>err fixed.
             last (run_events s s') = Repair err (Inr fixed)
           \<and> error_of (snd (last (executions (run_events s s')))) = Some err
           \<and> res = Inl (ValueError (exhausted_message max_retries fixed (Some err))))"
  using run
proof (cases rule: chat_cases)
  case (gen_failed sp up content)
  with gen show ?thesis by simp
next
  case (exhausted sp up content q0 evs q' r' c' e')
  from budget have lt: "0 < max_retries" by simp
  from fail fixed exhausted(4)
  have "\<forall>x \<in> set (executions evs). truthy (error_of (snd x))"
    and "\<forall>x \<in> set (repairs evs). \<exists>fixed. snd x = Inr fixed"
    by simp_all
  from loop_run_all_fail [OF exhausted(2) lt this]
  have *: "int (length (executions evs)) = max_retries"
          "int (length (repairs evs)) = max_retries"
          "evs \<noteq> []" "last evs = Repair (str_of e') (Inr q')"
          "error_of (snd (last (executions evs))) = e'"
    by simp_all
  from \<open>truthy e'\<close> obtain err where err: "e' = Some err"
    by (cases e') (auto simp: truthy_def)
  with * exhausted(4,5) show ?thesis by (simp add: str_of_def)
next
  case (format_failed sp up content q0 evs q' r' c' e' n' err)
  from budget have lt: "0 < max_retries" by simp
  from fail fixed format_failed(4)
  have "\<forall>x \<in> set (executions evs). truthy (error_of (snd x))"
    and "\<forall>x \<in> set (repairs evs). \<exists>fixed. snd x = Inr fixed"
    by simp_all
  from loop_run_all_fail [OF format_failed(2) lt this] format_failed(3)
  show ?thesis by simp
next
  case (plain sp up content q0 evs q' r' c' e' n' fr)
  from budget have lt: "0 < max_retries" by simp
  from fail fixed plain(4)
  have "\<forall>x \<in> set (executions evs). truthy (error_of (snd x))"
    and "\<forall>x \<in> set (repairs evs). \<exists>fixed. snd x = Inr fixed"
    by simp_all
  from loop_run_all_fail [OF plain(2) lt this] plain(3)
  show ?thesis by simp
next
  case (human_failed sp up content q0 evs q' r' c' e' n' fr)
  from budget have lt: "0 < max_retries" by simp
  from fail fixed human_failed(4)
  have "\<forall>x \<in> set (executions evs). truthy (error_of (snd x))"
    and "\<forall>x \<in> set (repairs evs). \<exists>fixed. snd x = Inr fixed"
    by simp_all
  from loop_run_all_fail [OF human_failed(2) lt this] human_failed(3)
  show ?thesis by simp
next
  case (human sp up content q0 evs q' r' c' e' n' fr sp' up' answer)
  from budget have lt: "0 < max_retries" by simp
  from fail fixed human(4)
  have "\<forall>x \<in> set (executions evs). truthy (error_of (snd x))"
    and "\<forall>x \<in> set (repairs evs). \<exists>fixed. snd x = Inr fixed"
    by simp_all
  from loop_run_all_fail [OF human(2) lt this] human(3)
  show ?thesis by simp
qed

theorem chat_exhausted_witness:
  "int (length (executions
      (run_events example_session (snd (chat failing_env ''q'' 2 False example_session))))) = 2
   \<and> int (length (repairs
      (run_events example_session (snd (chat failing_env ''q'' 2 False example_session))))) = 2
   \<and> fst (chat failing_env ''q'' 2 False example_session) =
       Inl (ValueError (exhausted_message 2 ''SELECT c'' (Some ''no such column: b'')))"
proof -
  let ?s = "snd (chat failing_env ''q'' 2 False example_session)"
  have fail: "\<forall>x \<in> set (executions (run_events example_session ?s)). truthy (error_of (snd x))"
    by (simp add: failing_run_2_calls truthy_def error_of_def)
  have fixed: "\<forall>x \<in> set (repairs (run_events example_session ?s)). \<exists>fixed. snd x = Inr fixed"
    by (simp add: failing_run_2_calls)
  from chat_exhausted [OF pair_chat failing_generate_sql(1) _ fail fixed] failing_run_2
  show ?thesis by simp
qed

text \<open>
  Claim C1 as it is written fails twice. With \<open>max_retries = 0\<close> nothing is executed
  and \<open>chat\<close> returns a dictionary. With \<open>max_retries = 1\<close> the only statement
  executed is \<open>SELECT a\<close>, and the message holds \<open>SELECT b\<close>, the reply of the repair.
\<close>

theorem chat_exhausted_counterexample:
  "fst (chat failing_env ''q'' 0 False example_session) =
     Inr [(''query'', StrVal ''SELECT a''),
          (''results'', ResultsVal (Message ''No results found.'')),
          (''execution_time'', FloatVal 0),
          (''retries'', IntVal 0)]
   \<and> executions (run_events example_session (snd (chat failing_env ''q'' 0 False example_session)))
       = []
   \<and> executions (run_events example_session (snd (chat failing_env ''q'' 1 False example_session)))
       = [(''SELECT a'', None, None, Some ''no such column: a'')]
   \<and> repairs (run_events example_session (snd (chat failing_env ''q'' 1 False example_session)))
       = [(''no such column: a'', Inr ''SELECT b'')]
   \<and> fst (chat failing_env ''q'' 1 False example_session) =
       Inl (ValueError (''The SQL query could not be executed after 1 attempts.'' @ [newline]
          @ ''Last generated query:'' @ [newline] @ ''SELECT b'' @ [newline, newline]
          @ ''Error:'' @ [newline] @ ''no such column: a''))"
  using failing_run_0 failing_run_0_calls failing_run_1 failing_run_1_calls by simp

text \<open>
  Claim C3. When the \<open>k\<close>-th execution of a run returns no error, it is the last
  execution, the executions before it returned errors, exactly \<open>k - 1\<close> repairs were
  made and all of them before it, \<open>k\<close> is at most \<open>max_retries\<close>, and the \<open>retries\<close>
  entry of the returned dictionary is \<open>k - 1\<close>. The dictionary is returned when the rows
  can be formatted and, if an answer is asked for, the question is not empty.
\<close>

theorem chat_first_success:
  assumes run: "chat E question max_retries human_response s = (res, s')"
    and k: "1 \<le> k" "k \<le> length (executions (run_events s s'))"
    and ok: "\<not> truthy (error_of (snd (executions (run_events s s') ! (k - 1))))"
  shows "length (executions (run_events s s')) = k
       \<and> length (repairs (run_events s s')) = k - 1
       \<and> int k \<le> max_retries
       \<and> (\<forall>i < k - 1. truthy (error_of (snd (executions (run_events s s') ! i))))
       \<and> (\<exists>pre sql r post. run_events s s' = pre @ Execute sql r # post
             \<and> length (executions pre) = k - 1 \<and> length (repairs pre) = k - 1
             \<and> executions post = [] \<and> repairs post = [])
       \<and> (\<forall>b. res = Inr b \<longrightarrow> map_of b ''retries'' = Some (IntVal (int k - 1)))
       \<and> ((human_response \<longrightarrow> question \<noteq> [])
            \<and> (\<exists>fr. format_results (fst (snd (executions (run_events s s') ! (k - 1))))
                     (fst (snd (snd (executions (run_events s s') ! (k - 1))))) = Inr fr)
            \<longrightarrow> (\<exists>b. res = Inr b))"
    (is "?A \<and> ?B \<and> ?C \<and> ?D \<and> ?P \<and> ?R \<and> ?S")
proof -
  let ?X = "executions (run_events s s')"
  have common:
    "?A \<and> ?B \<and> ?C \<and> ?D \<and> ?P \<and> n' = int k - 1 \<and> snd (?X ! (k - 1)) = (r', c', e') \<and> \<not> truthy e'"
    if lr: "loop_run max_retries q0 None None None 0 evs q' r' c' e' n'"
      and ev: "run_events s s' = Completion sp up content # evs @ tl"
      and tl: "executions tl = []" "repairs tl = []"
    for q0 evs q' r' c' e' n' sp up content tl
  proof -
    from ev tl have X: "?X = executions evs" and R: "repairs (run_events s s') = repairs evs"
      by simp_all
    from k X have k': "k \<le> length (executions evs)" by simp
    from ok X have ok': "\<not> truthy (error_of (snd (executions evs ! (k - 1))))" by simp
    note f = loop_run_kth_success [OF lr k(1) k' ok']
    have a: ?A using f(1) X by simp
    have b: ?B using f(2) R by simp
    have c: ?C using f(3,4) by simp
    have d: ?D using f(6) X by simp
    have "run_events s s' = (Completion sp up content # butlast evs) @ Execute q' (r', c', e') # tl"
      using ev f(8) by (metis append_Cons append_assoc append_Nil)
    moreover have "length (executions (Completion sp up content # butlast evs)) = k - 1"
      using f(9) by simp
    moreover have "length (repairs (Completion sp up content # butlast evs)) = k - 1"
      using f(10) by simp
    ultimately have p: ?P using tl by blast
    have "snd (?X ! (k - 1)) = (r', c', e')" using f(11) X by simp
    with a b c d p f(3) f(5) show ?thesis by blast
  qed
  from run show ?thesis
  proof (cases rule: chat_cases)
    case (gen_failed sp up content)
    with k show ?thesis by simp
  next
    case (exhausted sp up content q0 evs q' r' c' e')
    from common [OF exhausted(2), of sp up content "[]"] exhausted(3,4)
    show ?thesis by simp
  next
    case (format_failed sp up content q0 evs q' r' c' e' n' err)
    have ev: "run_events s s' = Completion sp up content # evs @ []"
      using format_failed(4) by simp
    note c = common [OF format_failed(2) ev]
    have r: ?R using format_failed(6) by simp
    have "fst (snd (?X ! (k - 1))) = r'" "fst (snd (snd (?X ! (k - 1)))) = c'"
      using c by simp_all
    with format_failed(5) have s: ?S by simp
    from c r s show ?thesis by simp
  next
    case (plain sp up content q0 evs q' r' c' e' n' fr)
    have ev: "run_events s s' = Completion sp up content # evs @ []"
      using plain(4) by simp
    note c = common [OF plain(2) ev]
    from c have n': "n' = int k - 1" by simp
    have r: ?R using plain(7) n' by simp
    have s: ?S using plain(7) by simp
    from c r s show ?thesis by simp
  next
    case (human_failed sp up content q0 evs q' r' c' e' n' fr)
    have ev: "run_events s s' = Completion sp up content # evs @ []"
      using human_failed(4) by simp
    note c = common [OF human_failed(2) ev]
    have r: ?R using human_failed(8) by simp
    have s: ?S using human_failed(6,7) by simp
    from c r s show ?thesis by simp
  next
    case (human sp up content q0 evs q' r' c' e' n' fr sp' up' answer)
    have ev: "run_events s s' = Completion sp up content # evs @ [Completion sp' up' answer]"
      using human(4) by simp
    note c = common [OF human(2) ev]
    from c have n': "n' = int k - 1" by simp
    have r: ?R using human(8) n' by simp
    have s: ?S using human(8) by simp
    from c r s show ?thesis by simp
  qed
qed

theorem chat_first_success_witness:
  "length (executions
      (run_events example_session (snd (chat retry_env ''q'' 3 False example_session)))) = 2
   \<and> length (repairs
      (run_events example_session (snd (chat retry_env ''q'' 3 False example_session)))) = 1
   \<and> map_of [(''query'', StrVal ''SELECT b''),
              (''results'', ResultsVal (Records [[(''b'', IntCell 1)]])),
              (''execution_time'', FloatVal 0),
              (''retries'', IntVal 1)] ''retries'' = Some (IntVal (int 2 - 1))
   \<and> fst (chat retry_env ''q'' 3 False example_session) =
       Inr [(''query'', StrVal ''SELECT b''),
            (''results'', ResultsVal (Records [[(''b'', IntCell 1)]])),
            (''execution_time'', FloatVal 0),
            (''retries'', IntVal 1)]"
proof -
  let ?s = "snd (chat retry_env ''q'' 3 False example_session)"
  have k: "(1::nat) \<le> 2" "2 \<le> length (executions (run_events example_session ?s))"
    by (simp_all add: retry_run_3_calls)
  have ok: "\<not> truthy (error_of (snd (executions (run_events example_session ?s) ! (2 - 1))))"
    by (simp add: retry_run_3_calls truthy_def error_of_def)
  from chat_first_success [OF pair_chat k ok] retry_run_3
  show ?thesis by simp
qed

text \<open>
  Claim C5, amended. When a repair fails in a run of \<open>chat\<close>, it is the last repair and
  no execution follows it, the counter is not incremented for it (the \<open>retries\<close> entry
  counts the repairs before it), the exhausted-retries error is not raised, and the
  result of formatting is \<open>No results found.\<close>, since the failed execution left no rows.
  \<open>chat\<close> then returns its dictionary, except when an answer is asked for and the
  question is empty: then \<open>generate_human_response\<close> raises its \<open>ValueError\<close>.
\<close>

theorem chat_repair_failed:
  assumes run: "chat E question max_retries human_response s = (res, s')"
    and failed: "(err, Inl x) \<in> set (repairs (run_events s s'))"
  shows "last (repairs (run_events s s')) = (err, Inl x)
       \<and> (\<exists>pre post. run_events s s' = pre @ Repair err (Inl x) # post
             \<and> executions post = [] \<and> repairs post = [])
       \<and> length (executions (run_events s s')) = length (repairs (run_events s s'))
       \<and> error_of (snd (last (executions (run_events s s')))) = Some err
       \<and> int (length (repairs (run_events s s'))) \<le> max_retries
       \<and> (\<forall>q e. res \<noteq> Inl (ValueError (exhausted_message max_retries q e)))
       \<and> (\<not> human_response \<longrightarrow>
            res = Inr [(''query'', StrVal (fst (last (executions (run_events s s'))))),
                       (''results'', ResultsVal (Message no_results_message)),
                       (''execution_time'', FloatVal (execution_time E)),
                       (''retries'', IntVal (int (length (repairs (run_events s s'))) - 1))])
       \<and> (human_response \<and> question \<noteq> [] \<longrightarrow>
            (\<exists>answer.
              res = Inr [(''query'', StrVal (fst (last (executions (run_events s s'))))),
                         (''result'', ResultsVal (Message no_results_message)),
                         (''answer'', StrVal answer),
                         (''execution_time'', FloatVal (execution_time E)),
                         (''retries'', IntVal (int (length (repairs (run_events s s'))) - 1))]))
       \<and> (human_response \<and> question = [] \<longrightarrow>
            res = Inl (ValueError missing_question_message'))"
    (is "?A \<and> ?B \<and> ?C \<and> ?D \<and> ?E \<and> ?F \<and> ?G \<and> ?H \<and> ?I")
proof -
  let ?X = "executions (run_events s s')"
  let ?R = "repairs (run_events s s')"
  have common:
    "?A \<and> ?B \<and> ?C \<and> ?D \<and> ?E \<and> n' < max_retries \<and> r' = None \<and> c' = None
     \<and> fst (last ?X) = q' \<and> n' = int (length ?R) - 1"
    if lr: "loop_run max_retries q0 None None None 0 evs q' r' c' e' n'"
      and ev: "run_events s s' = Completion sp up content # evs @ tl"
      and tl: "executions tl = []" "repairs tl = []"
    for q0 evs q' r' c' e' n' sp up content tl
  proof -
    from ev tl have X: "?X = executions evs" and R: "?R = repairs evs"
      by simp_all
    from failed R have fl: "(err, Inl x) \<in> set (repairs evs)" by simp
    note f = loop_run_repair_failed [OF lr fl]
    from f have ne: "evs \<noteq> []" and la: "last evs = Repair err (Inl x)" by simp_all
    note er = ends_with_repair [OF ne la]
    have a: ?A using er(2) R by simp
    have "run_events s s' = (Completion sp up content # butlast evs) @ Repair err (Inl x) # tl"
      using ev er(1) by (metis append_Cons append_assoc append_Nil)
    with tl have b: ?B by blast
    have c: ?C using f X R by simp
    from f have "truthy e'" and "err = str_of e'" by simp_all
    then have e': "e' = Some err" by (cases e') (auto simp: truthy_def str_of_def)
    have lastX: "last ?X = (q', (None, None, e'))" using f X by simp
    have d: ?D using lastX e' by (simp add: error_of_def)
    from f have n: "int (length (repairs evs)) = n' + 1" and lt: "n' < max_retries" by simp_all
    have e: ?E using n lt R by simp
    have "n' = int (length ?R) - 1" using n R by simp
    moreover have "fst (last ?X) = q'" using lastX by simp
    moreover from f have "r' = None" "c' = None" by simp_all
    ultimately show ?thesis using a b c d e lt by blast
  qed
  from run show ?thesis
  proof (cases rule: chat_cases)
    case (gen_failed sp up content)
    with failed show ?thesis by simp
  next
    case (exhausted sp up content q0 evs q' r' c' e')
    from common [OF exhausted(2), of sp up content "[]"] exhausted(4)
    show ?thesis by simp
  next
    case (format_failed sp up content q0 evs q' r' c' e' n' err')
    have ev: "run_events s s' = Completion sp up content # evs @ []"
      using format_failed(4) by simp
    note c = common [OF format_failed(2) ev]
    from c format_failed(5) show ?thesis by (simp add: format_results_None)
  next
    case (plain sp up content q0 evs q' r' c' e' n' fr)
    have ev: "run_events s s' = Completion sp up content # evs @ []"
      using plain(4) by simp
    note c = common [OF plain(2) ev]
    from c plain(5) have fr: "fr = Message no_results_message"
      by (simp add: format_results_None)
    have f: ?F using plain(7) by simp
    have g: ?G using plain(7) fr c by simp
    have h: ?H using plain(6) by simp
    have i: ?I using plain(6) by simp
    from c f g h i show ?thesis by simp
  next
    case (human_failed sp up content q0 evs q' r' c' e' n' fr)
    have ev: "run_events s s' = Completion sp up content # evs @ []"
      using human_failed(4) by simp
    note c = common [OF human_failed(2) ev]
    have f: ?F using human_failed(8) exhausted_message_not_missing_question
      by (metis Inl_inject error.inject)
    have g: ?G using human_failed(6) by simp
    have h: ?H using human_failed(7) by simp
    have i: ?I using human_failed(8) by simp
    from c f g h i show ?thesis by simp
  next
    case (human sp up content q0 evs q' r' c' e' n' fr sp' up' answer)
    have ev: "run_events s s' = Completion sp up content # evs @ [Completion sp' up' answer]"
      using human(4) by simp
    note c = common [OF human(2) ev]
    from c human(5) have fr: "fr = Message no_results_message"
      by (simp add: format_results_None)
    have f: ?F using human(8) by simp
    have g: ?G using human(6) by simp
    have h: ?H using human(8) fr c by simp
    have i: ?I using human(7) by simp
    from c f g h i show ?thesis by simp
  qed
qed

theorem chat_repair_failed_witness:
  "(''no such column: a'', Inl (ValueError non_select_message))
     \<in> set (repairs
          (run_events example_session (snd (chat unsafe_env ''q'' 3 False example_session))))
   \<and> length (executions
       (run_events example_session (snd (chat unsafe_env ''q'' 3 False example_session)))) = 1
   \<and> fst (chat unsafe_env ''q'' 3 False example_session) =
       Inr [(''query'', StrVal ''SELECT a''),
            (''results'', ResultsVal (Message no_results_message)),
            (''execution_time'', FloatVal 0),
            (''retries'', IntVal 0)]"
proof -
  let ?s = "snd (chat unsafe_env ''q'' 3 False example_session)"
  have mem: "(''no such column: a'', Inl (ValueError non_select_message))
     \<in> set (repairs (run_events example_session ?s))"
    by (simp add: unsafe_run_3_calls)
  have et: "execution_time unsafe_env = 0"
    by (simp add: unsafe_env_def scripted_env_def)
  from chat_repair_failed [OF pair_chat mem] mem et
  show ?thesis by (simp add: unsafe_run_3_calls)
qed

text \<open>
  Claim C5 as it is written fails for the empty question with \<open>human_response\<close>: the
  repair fails for want of a question, the loop is left, and \<open>chat\<close> raises instead of
  returning a dictionary.
\<close>

theorem chat_repair_failed_counterexample:
  "executions (run_events example_session (snd (chat failing_env [] 3 True example_session)))
     = [(''SELECT a'', None, None, Some ''no such column: a'')]
   \<and> repairs (run_events example_session (snd (chat failing_env [] 3 True example_session)))
     = [(''no such column: a'', Inl (ValueError missing_question_message))]
   \<and> fst (chat failing_env [] 3 True example_session)
     = Inl (ValueError missing_question_message')"
  using empty_question_run by simp

text \<open>
  Claim C6. The prompt of each repair holds the error text of the execution just
  made, but not the statement that was executed: \<open>chat\<close> passes no \<open>sql_query\<close>, so
  \<open>fix_error_message\<close> takes the stored \<open>generated_query\<close>, the unprocessed reply of the
  generation. In the run below the statements executed are \<open>SELECT a\<close> and \<open>SELECT b\<close>,
  and both repair prompts end with \<open>SELECT a;\<close>.
\<close>

theorem chat_repair_prompt_query:
  "map fst (executions
      (run_events example_session (snd (chat failing_env ''q'' 2 False example_session))))
     = [''SELECT a'', ''SELECT b'']
   \<and> map (fst \<circ> snd) (tl (completions
      (run_events example_session (snd (chat failing_env ''q'' 2 False example_session))))) =
     [''Today is: '' @ [newline] @ indent @ ''2025-01-01 00:00:00''
        @ [newline, newline] @ indent @ ''Database Schema:'' @ [newline] @ indent @ ''Table: t''
        @ [newline, newline] @ indent @ ''Question:'' @ [newline] @ indent
        @ [dquote] @ ''q'' @ [dquote]
        @ [newline, newline] @ indent @ ''Error:'' @ [newline] @ indent @ ''no such column: a''
        @ [newline, newline] @ indent @ ''SQL Query:'' @ [newline] @ indent @ ''SELECT a;'',
      ''Today is: '' @ [newline] @ indent @ ''2025-01-01 00:00:00''
        @ [newline, newline] @ indent @ ''Database Schema:'' @ [newline] @ indent @ ''Table: t''
        @ [newline, newline] @ indent @ ''Question:'' @ [newline] @ indent
        @ [dquote] @ ''q'' @ [dquote]
        @ [newline, newline] @ indent @ ''Error:'' @ [newline] @ indent @ ''no such column: b''
        @ [newline, newline] @ indent @ ''SQL Query:'' @ [newline] @ indent @ ''SELECT a;'']"
  by (simp add: run_eval string_eval generate_user_prompt_def repair_user_prompt_def
      strftime_now_def indent_def dquote_def)

text \<open>
  Claim C7. \<open>generate_sql\<close> stores the question, and as \<open>generated_query\<close> the reply as
  the backend gave it, not the cleaned and gated statement it returns: for the reply
  \<open>SELECT a;\<close> it returns \<open>SELECT a\<close> and stores \<open>SELECT a;\<close>.
\<close>

theorem generate_sql_stores_reply:
  "fst (generate_sql failing_env ''q'' example_session) = Inr ''SELECT a''
   \<and> generated_query (snd (generate_sql failing_env ''q'' example_session)) = Some ''SELECT a;''
   \<and> natural_language_question (snd (generate_sql failing_env ''q'' example_session)) = Some ''q''"
  by (simp add: run_eval string_eval)

text \<open>
  Claim C8. For the question about order 5 \<open>chat\<close> returns the query without its
  \<open>;\<close>, the one record, and 0 retries. Without \<open>human_response\<close> the records are
  under the key \<open>results\<close>; with it they are under the key \<open>result\<close>, and there is no
  key \<open>results\<close>.
\<close>

theorem chat_human_response_key:
  "fst (chat orders_env ''what is the total of order 5?'' 3 False orders_session) =
     Inr [(''query'', StrVal ''SELECT total FROM orders WHERE id=5''),
          (''results'', ResultsVal (Records [[(''total'', FloatCell 42)]])),
          (''execution_time'', FloatVal 0),
          (''retries'', IntVal 0)]
   \<and> fst (chat orders_env ''what is the total of order 5?'' 3 True orders_session) =
     Inr [(''query'', StrVal ''SELECT total FROM orders WHERE id=5''),
          (''result'', ResultsVal (Records [[(''total'', FloatCell 42)]])),
          (''answer'', StrVal ''The total of order 5 is 42.''),
          (''execution_time'', FloatVal 0),
          (''retries'', IntVal 0)]"
  by (simp add: run_eval string_eval)

text \<open>
  Claim C10. \<open>fix_error_message\<close> leaves \<open>natural_language_question\<close> and
  \<open>generated_query\<close> as they were, however it ends, and every other field too; it only
  adds calls to the trace. So the stored query stays the one that the generation
  recorded.
\<close>

theorem fix_error_message_frame:
  "natural_language_question (snd (fix_error_message E err question sql_query s))
     = natural_language_question s
   \<and> generated_query (snd (fix_error_message E err question sql_query s)) = generated_query s
   \<and> schema_text (snd (fix_error_message E err question sql_query s)) = schema_text s
   \<and> model (snd (fix_error_message E err question sql_query s)) = model s
   \<and> database_type (snd (fix_error_message E err question sql_query s)) = database_type s
   \<and> engine (snd (fix_error_message E err question sql_query s)) = engine s
   \<and> prefix (trace s) (trace (snd (fix_error_message E err question sql_query s)))"
proof -
  obtain out s' where f: "fix_error_message E err question sql_query s = (out, s')"
    by (cases "fix_error_message E err question sql_query s")
  from fix_error_message_state [OF f] obtain cs where
    "s' = s\<lparr>trace := trace s @ cs @ [Repair err out]\<rparr>" by blast
  with f show ?thesis by simp
qed

theorem fix_error_message_frame_witness:
  "fst (fix_error_message failing_env ''no such column: a'' None None
         (snd (generate_sql failing_env ''q'' example_session))) = Inr ''SELECT b''
   \<and> generated_query (snd (fix_error_message failing_env ''no such column: a'' None None
         (snd (generate_sql failing_env ''q'' example_session)))) = Some ''SELECT a;''
   \<and> fst (fix_error_message unsafe_env ''no such column: a'' None None
         (snd (generate_sql unsafe_env ''q'' example_session)))
       = Inl (ValueError non_select_message)
   \<and> generated_query (snd (fix_error_message unsafe_env ''no such column: a'' None None
         (snd (generate_sql unsafe_env ''q'' example_session)))) = Some ''SELECT a;''
   \<and> fst (fix_error_message failing_env ''no such column: a'' None None example_session)
       = Inl (ValueError missing_query_message)
   \<and> generated_query (snd (fix_error_message failing_env ''no such column: a'' None None
         example_session)) = None"
proof -
  have a: "fst (fix_error_message failing_env ''no such column: a'' None None
         (snd (generate_sql failing_env ''q'' example_session))) = Inr ''SELECT b''"
    by (simp add: run_eval string_eval)
  have b: "fst (fix_error_message unsafe_env ''no such column: a'' None None
         (snd (generate_sql unsafe_env ''q'' example_session)))
       = Inl (ValueError non_select_message)"
    by (simp add: run_eval string_eval)
  have c: "fst (fix_error_message failing_env ''no such column: a'' None None example_session)
       = Inl (ValueError missing_query_message)"
    by (simp add: run_eval string_eval)
  have g: "generated_query (snd (generate_sql failing_env ''q'' example_session)) = Some ''SELECT a;''"
    "generated_query (snd (generate_sql unsafe_env ''q'' example_session)) = Some ''SELECT a;''"
    "generated_query example_session = None"
    by (simp_all add: run_eval string_eval)
  from a b c g
    fix_error_message_frame [of failing_env "''no such column: a''" None None
      "snd (generate_sql failing_env ''q'' example_session)"]
    fix_error_message_frame [of unsafe_env "''no such column: a''" None None
      "snd (generate_sql unsafe_env ''q'' example_session)"]
    fix_error_message_frame [of failing_env "''no such column: a''" None None example_session]
  show ?thesis by simp
qed

end
